theory Spec2Isabelle
  imports Complex_Main "HOL-Library.Product_Lexorder"
begin

section \<open>Numeric conventions\<close>

text \<open>
  The pipeline computes on IEEE doubles (Python \<open>float\<close>, \<open>numpy.float64\<close>). Finite
  quantities are modelled as \<open>real\<close>: rounding is not modelled. The inputs on which the
  source itself tests \<open>np.isfinite\<close> (the four cap vectors and the two price vectors of
  stage 03) keep their non-finite values and are of type \<open>flt\<close>.
\<close>

datatype flt = Finite real | PosInf | NegInf | NaN

fun isfinite :: "flt \<Rightarrow> bool" where
  "isfinite (Finite r) = True"
| "isfinite PosInf = False"
| "isfinite NegInf = False"
| "isfinite NaN = False"

text \<open>\<open>EPS = 1e-12\<close> in \<open>02_proposer.py\<close> and \<open>03_commit.py\<close>.\<close>

definition EPS :: real where
  "EPS = 1 / 10 ^ 12"

text \<open>
  A BESS cap budget of one hour: \<open>float(cap[i]) if np.isfinite(cap[i]) else np.inf\<close>.
  \<open>None\<close> is \<open>+inf\<close>.
\<close>

fun budget_of_cap :: "flt \<Rightarrow> real option" where
  "budget_of_cap (Finite c) = Some c"
| "budget_of_cap PosInf = None"
| "budget_of_cap NegInf = None"
| "budget_of_cap NaN = None"

text \<open>\<open>min(x, budget)\<close>, \<open>budget > x\<close>, \<open>max(0.0, budget - x)\<close> and
  \<open>min(budget + x, c)\<close> on a budget that may be \<open>+inf\<close>.\<close>

fun bmin :: "real \<Rightarrow> real option \<Rightarrow> real" where
  "bmin x None = x"
| "bmin x (Some b) = min x b"

fun bgt :: "real option \<Rightarrow> real \<Rightarrow> bool" where
  "bgt None x = True"
| "bgt (Some b) x = (b > x)"

fun bdec :: "real option \<Rightarrow> real \<Rightarrow> real option" where
  "bdec None x = None"
| "bdec (Some b) x = Some (max 0 (b - x))"

fun brestore :: "real option \<Rightarrow> real \<Rightarrow> real \<Rightarrow> real option" where
  "brestore None x c = Some c"
| "brestore (Some b) x c = Some (min (b + x) c)"

section \<open>Stage 03: commit (\<open>03_commit.py\<close>)\<close>

text \<open>Scalars read from \<open>H\<close> at the top of \<open>run\<close>.\<close>

record commit_params =
  emax_arbi :: real
  emax_oze :: real
  eta_ch :: real
  eta_dis :: real
  lambda_h :: real
  arbi_dis_to_load :: bool

text \<open>
  The entries at index \<open>i\<close> of the hourly vectors of \<open>H\<close> and \<open>P\<close> that the loop reads.
  The source keeps one vector per field; the model keeps one record per hour.
\<close>

record hour_in =
  cap_grid_export_ac_mwh :: flt
  cap_grid_import_ac_mwh :: flt
  cap_bess_charge_net_mwh :: flt
  cap_bess_discharge_net_mwh :: flt
  H_surplus_net_mwh :: real
  deficit_net_mwh :: real
  price_import_pln_mwh :: flt
  price_export_pln_mwh :: flt
  prop_arbi_dis_to_grid_ac_mwh :: real
  prop_arbi_ch_from_grid_ac_mwh :: real

text \<open>
  The mutable state of one iteration of the hourly loop: the two SOC values carried from
  hour to hour, the two BESS budgets of the hour, the hour's cell of the copied surplus
  vector, and the hour's cell of every output buffer.
\<close>

record hour_st =
  soc_oze :: real
  soc_arbi :: real
  dis_net_budget :: "real option"
  ch_net_budget :: "real option"
  surplus_net_mwh :: real
  charge_from_surplus_mwh :: real
  charge_from_grid_mwh :: real
  discharge_to_load_mwh :: real
  discharge_to_grid_mwh :: real
  e_import_mwh :: real
  e_export_mwh :: real
  export_from_surplus_ac_mwh :: real
  export_from_arbi_ac_mwh :: real
  import_for_load_ac_mwh :: real
  import_for_arbi_ac_mwh :: real
  soc_oze_before_idle_mwh :: real
  soc_oze_after_idle_mwh :: real
  soc_arbi_before_idle_mwh :: real
  soc_arbi_after_idle_mwh :: real
  soc_arbi_pct_of_arbi :: real
  soc_arbi_pct_of_total :: real
  soc_oze_pct_of_oze :: real
  soc_oze_pct_of_total :: real
  loss_idle_oze_mwh :: real
  loss_idle_arbi_mwh :: real
  loss_conv_ch_mwh :: real
  loss_conv_dis_to_grid_mwh :: real
  loss_conv_dis_to_load_mwh :: real
  wasted_surplus_due_to_export_cap_mwh :: real
  bind_export_cap :: bool
  bind_import_cap :: bool
  cap_blocked_dis_ac_mwh :: real
  cap_blocked_ch_ac_mwh :: real
  unserved_load_after_cap_ac_mwh :: real

text \<open>The state at the top of iteration \<open>i\<close>: buffers are \<open>np.zeros(N)\<close>.\<close>

definition init_hour :: "hour_in \<Rightarrow> real \<Rightarrow> real \<Rightarrow> hour_st" where
  "init_hour h so sa =
     \<lparr> soc_oze = so, soc_arbi = sa,
       dis_net_budget = budget_of_cap (cap_bess_discharge_net_mwh h),
       ch_net_budget = budget_of_cap (cap_bess_charge_net_mwh h),
       surplus_net_mwh = H_surplus_net_mwh h,
       charge_from_surplus_mwh = 0, charge_from_grid_mwh = 0,
       discharge_to_load_mwh = 0, discharge_to_grid_mwh = 0,
       e_import_mwh = 0, e_export_mwh = 0,
       export_from_surplus_ac_mwh = 0, export_from_arbi_ac_mwh = 0,
       import_for_load_ac_mwh = 0, import_for_arbi_ac_mwh = 0,
       soc_oze_before_idle_mwh = 0, soc_oze_after_idle_mwh = 0,
       soc_arbi_before_idle_mwh = 0, soc_arbi_after_idle_mwh = 0,
       soc_arbi_pct_of_arbi = 0, soc_arbi_pct_of_total = 0,
       soc_oze_pct_of_oze = 0, soc_oze_pct_of_total = 0,
       loss_idle_oze_mwh = 0, loss_idle_arbi_mwh = 0,
       loss_conv_ch_mwh = 0, loss_conv_dis_to_grid_mwh = 0, loss_conv_dis_to_load_mwh = 0,
       wasted_surplus_due_to_export_cap_mwh = 0,
       bind_export_cap = False, bind_import_cap = False,
       cap_blocked_dis_ac_mwh = 0, cap_blocked_ch_ac_mwh = 0,
       unserved_load_after_cap_ac_mwh = 0 \<rparr>"

subsection \<open>Step 1: surplus to OZE, then ARBI, then export\<close>

definition surplus_to_oze :: "commit_params \<Rightarrow> hour_st \<Rightarrow> hour_st" where
  "surplus_to_oze P s =
     (let headroom_oze = max 0 (emax_oze P - soc_oze s);
          to_oze_net = min (surplus_net_mwh s) headroom_oze
      in if to_oze_net > EPS
         then s\<lparr> soc_oze := min (emax_oze P) (soc_oze s + to_oze_net),
                 surplus_net_mwh := surplus_net_mwh s - to_oze_net \<rparr>
         else s)"

definition surplus_to_arbi :: "commit_params \<Rightarrow> hour_in \<Rightarrow> hour_st \<Rightarrow> hour_st" where
  "surplus_to_arbi P h s =
     (let headroom_arbi = max 0 (emax_arbi P - soc_arbi s);
          to_arbi_net = bmin (min (surplus_net_mwh s) headroom_arbi) (ch_net_budget s)
      in if to_arbi_net > EPS
         then s\<lparr> charge_from_surplus_mwh := charge_from_surplus_mwh s + to_arbi_net,
                 surplus_net_mwh := surplus_net_mwh s - to_arbi_net,
                 soc_arbi := min (emax_arbi P) (soc_arbi s + to_arbi_net),
                 ch_net_budget :=
                   (if isfinite (cap_bess_charge_net_mwh h)
                    then bdec (ch_net_budget s) to_arbi_net else ch_net_budget s) \<rparr>
         else s)"

definition surplus_to_export :: "hour_st \<Rightarrow> hour_st" where
  "surplus_to_export s =
     (if surplus_net_mwh s > EPS
      then (let export_ac = surplus_net_mwh s
            in s\<lparr> e_export_mwh := e_export_mwh s + export_ac,
                    export_from_surplus_ac_mwh := export_from_surplus_ac_mwh s + export_ac,
                    surplus_net_mwh := 0 \<rparr>)
      else s)"

definition step_surplus :: "commit_params \<Rightarrow> hour_in \<Rightarrow> hour_st \<Rightarrow> hour_st" where
  "step_surplus P h s =
     (if surplus_net_mwh s > EPS
      then surplus_to_export (surplus_to_arbi P h (surplus_to_oze P s))
      else s)"

subsection \<open>Step 2: deficit from OZE, then (optionally) ARBI, then import\<close>

text \<open>
  \<open>deficit\<close> is a local of the iteration; it is threaded through the three sub-steps.
  \<open>x * (1.0 / eta_dis - 1.0) if eta_dis > EPS else 0.0\<close> is the conversion loss.
\<close>

definition conv_loss_to_load :: "commit_params \<Rightarrow> real \<Rightarrow> real" where
  "conv_loss_to_load P x = (if eta_dis P > EPS then x * (1 / eta_dis P - 1) else 0)"

definition deficit_from_oze :: "commit_params \<Rightarrow> real \<times> hour_st \<Rightarrow> real \<times> hour_st" where
  "deficit_from_oze P ds =
     (let deficit = fst ds; s = snd ds;
          from_oze = min deficit (soc_oze s)
      in if from_oze > EPS
         then (deficit - from_oze,
               s\<lparr> soc_oze := max 0 (soc_oze s - from_oze),
                   discharge_to_load_mwh := discharge_to_load_mwh s + from_oze,
                   loss_conv_dis_to_load_mwh :=
                     loss_conv_dis_to_load_mwh s + conv_loss_to_load P from_oze \<rparr>)
         else (deficit, s))"

definition deficit_from_arbi :: "commit_params \<Rightarrow> real \<times> hour_st \<Rightarrow> real \<times> hour_st" where
  "deficit_from_arbi P ds =
     (let deficit = fst ds; s = snd ds
      in if deficit > EPS \<and> arbi_dis_to_load P \<and> bgt (dis_net_budget s) EPS
         then (let can_from_arbi = bmin (min deficit (soc_arbi s)) (dis_net_budget s)
               in if can_from_arbi > EPS
                  then (deficit - can_from_arbi,
                        s\<lparr> soc_arbi := max 0 (soc_arbi s - can_from_arbi),
                            dis_net_budget := bdec (dis_net_budget s) can_from_arbi,
                            discharge_to_load_mwh := discharge_to_load_mwh s + can_from_arbi,
                            loss_conv_dis_to_load_mwh :=
                              loss_conv_dis_to_load_mwh s + conv_loss_to_load P can_from_arbi \<rparr>)
                  else (deficit, s))
         else (deficit, s))"

definition deficit_to_import :: "real \<times> hour_st \<Rightarrow> hour_st" where
  "deficit_to_import ds =
     (let deficit = fst ds; s = snd ds
      in if deficit > EPS
         then (let import_ac = deficit
               in s\<lparr> e_import_mwh := e_import_mwh s + import_ac,
                       import_for_load_ac_mwh := import_for_load_ac_mwh s + import_ac \<rparr>)
         else s)"

definition step_deficit :: "commit_params \<Rightarrow> hour_in \<Rightarrow> hour_st \<Rightarrow> hour_st" where
  "step_deficit P h s =
     (let deficit = max 0 (deficit_net_mwh h)
      in if deficit > EPS
         then deficit_to_import (deficit_from_arbi P (deficit_from_oze P (deficit, s)))
         else s)"

subsection \<open>Step 3: ARBI to grid, as proposed by stage 02\<close>

definition step_arbi_to_grid :: "commit_params \<Rightarrow> hour_in \<Rightarrow> hour_st \<Rightarrow> hour_st" where
  "step_arbi_to_grid P h s =
     (if bgt (dis_net_budget s) EPS
      then (let max_net_for_grid = bmin (soc_arbi s) (dis_net_budget s);
                max_ac_for_grid = max_net_for_grid * eta_dis P;
                out_ac = min (prop_arbi_dis_to_grid_ac_mwh h) max_ac_for_grid
            in if out_ac > EPS
               then (let used_net0 = (if eta_dis P > EPS then out_ac / eta_dis P else out_ac);
                         used_net = min used_net0 max_net_for_grid
                     in s\<lparr> soc_arbi := max 0 (soc_arbi s - used_net),
                             dis_net_budget := bdec (dis_net_budget s) used_net,
                             discharge_to_grid_mwh := discharge_to_grid_mwh s + out_ac,
                             export_from_arbi_ac_mwh := export_from_arbi_ac_mwh s + out_ac,
                             e_export_mwh := e_export_mwh s + out_ac,
                             loss_conv_dis_to_grid_mwh :=
                               loss_conv_dis_to_grid_mwh s + (used_net - out_ac) \<rparr>)
               else (let want_ac = prop_arbi_dis_to_grid_ac_mwh h;
                         possible_ac = max_net_for_grid * eta_dis P;
                         blocked = max 0 (want_ac - possible_ac)
                     in if blocked > EPS
                        then s\<lparr> cap_blocked_dis_ac_mwh := cap_blocked_dis_ac_mwh s + blocked \<rparr>
                        else s))
      else s)"

subsection \<open>Step 4: ARBI from grid, as proposed by stage 02\<close>

definition step_arbi_from_grid :: "commit_params \<Rightarrow> hour_in \<Rightarrow> hour_st \<Rightarrow> hour_st" where
  "step_arbi_from_grid P h s =
     (let in_ac = prop_arbi_ch_from_grid_ac_mwh h;
          headroom_arbi = max 0 (emax_arbi P - soc_arbi s);
          net_to_arbi = bmin (min (in_ac * eta_ch P) headroom_arbi) (ch_net_budget s)
      in if net_to_arbi > EPS
         then (let ac_needed = (if eta_ch P > EPS then net_to_arbi / eta_ch P else net_to_arbi)
               in s\<lparr> soc_arbi := min (emax_arbi P) (soc_arbi s + net_to_arbi),
                       charge_from_grid_mwh := charge_from_grid_mwh s + net_to_arbi,
                       e_import_mwh := e_import_mwh s + ac_needed,
                       import_for_arbi_ac_mwh := import_for_arbi_ac_mwh s + ac_needed,
                       loss_conv_ch_mwh := loss_conv_ch_mwh s + (ac_needed - net_to_arbi),
                       ch_net_budget :=
                         (if isfinite (cap_bess_charge_net_mwh h)
                          then bdec (ch_net_budget s) net_to_arbi else ch_net_budget s) \<rparr>)
         else (let want_net = prop_arbi_ch_from_grid_ac_mwh h * eta_ch P;
                   blocked_net = max 0 (want_net - max 0 (bmin headroom_arbi (ch_net_budget s)))
               in if blocked_net > EPS
                  then s\<lparr> cap_blocked_ch_ac_mwh := cap_blocked_ch_ac_mwh s + blocked_net \<rparr>
                  else s))"

subsection \<open>Step 5: the contractual grid caps, enforced on the AC sums\<close>

definition cut_export_arbi :: "commit_params \<Rightarrow> hour_in \<Rightarrow> real \<Rightarrow> hour_st \<Rightarrow> hour_st" where
  "cut_export_arbi P h cut_arbi s =
     (if cut_arbi > EPS
      then (let net_revert = (if eta_dis P > EPS then cut_arbi / eta_dis P else cut_arbi)
            in s\<lparr> export_from_arbi_ac_mwh := export_from_arbi_ac_mwh s - cut_arbi,
                    e_export_mwh := e_export_mwh s - cut_arbi,
                    soc_arbi := min (emax_arbi P) (soc_arbi s + net_revert),
                    dis_net_budget :=
                      (case cap_bess_discharge_net_mwh h of
                         Finite c \<Rightarrow> brestore (dis_net_budget s) net_revert c
                       | _ \<Rightarrow> dis_net_budget s) \<rparr>)
      else s)"

definition cut_export_surplus :: "real \<Rightarrow> hour_st \<Rightarrow> hour_st" where
  "cut_export_surplus overflow s =
     (if overflow > EPS
      then (let cut_surplus = min (export_from_surplus_ac_mwh s) overflow
            in if cut_surplus > EPS
               then s\<lparr> export_from_surplus_ac_mwh := export_from_surplus_ac_mwh s - cut_surplus,
                       e_export_mwh := e_export_mwh s - cut_surplus,
                       wasted_surplus_due_to_export_cap_mwh :=
                         wasted_surplus_due_to_export_cap_mwh s + cut_surplus \<rparr>
               else s)
      else s)"

definition enforce_export_cap :: "commit_params \<Rightarrow> hour_in \<Rightarrow> hour_st \<Rightarrow> hour_st" where
  "enforce_export_cap P h s =
     (let export_total = export_from_surplus_ac_mwh s + export_from_arbi_ac_mwh s
      in case cap_grid_export_ac_mwh h of
           Finite cap \<Rightarrow>
             if export_total > cap + EPS
             then (let overflow = export_total - cap;
                       cut_arbi = min (export_from_arbi_ac_mwh s) overflow;
                       s1 = cut_export_arbi P h cut_arbi s;
                       s2 = cut_export_surplus (overflow - cut_arbi) s1
                   in s2\<lparr> bind_export_cap := True \<rparr>)
             else s
         | _ \<Rightarrow> s)"

definition cut_import_arbi :: "commit_params \<Rightarrow> hour_in \<Rightarrow> real \<Rightarrow> hour_st \<Rightarrow> hour_st" where
  "cut_import_arbi P h cut_arbi s =
     (if cut_arbi > EPS
      then (let s1 = s\<lparr> import_for_arbi_ac_mwh := import_for_arbi_ac_mwh s - cut_arbi,
                         e_import_mwh := e_import_mwh s - cut_arbi \<rparr>;
                net_revert = cut_arbi * eta_ch P
            in if net_revert > EPS
               then s1\<lparr> soc_arbi := max 0 (soc_arbi s - net_revert),
                        charge_from_grid_mwh := max 0 (charge_from_grid_mwh s - net_revert),
                        loss_conv_ch_mwh := max 0 (loss_conv_ch_mwh s - (cut_arbi - net_revert)),
                        ch_net_budget :=
                          (case cap_bess_charge_net_mwh h of
                             Finite c \<Rightarrow> brestore (ch_net_budget s) net_revert c
                           | _ \<Rightarrow> ch_net_budget s) \<rparr>
               else s1)
      else s)"

definition cut_import_load :: "real \<Rightarrow> hour_st \<Rightarrow> hour_st" where
  "cut_import_load overflow s =
     (if overflow > EPS
      then (let cut_load = min (import_for_load_ac_mwh s) overflow
            in if cut_load > EPS
               then s\<lparr> import_for_load_ac_mwh := import_for_load_ac_mwh s - cut_load,
                       e_import_mwh := e_import_mwh s - cut_load,
                       unserved_load_after_cap_ac_mwh :=
                         unserved_load_after_cap_ac_mwh s + cut_load \<rparr>
               else s)
      else s)"

definition enforce_import_cap :: "commit_params \<Rightarrow> hour_in \<Rightarrow> hour_st \<Rightarrow> hour_st" where
  "enforce_import_cap P h s =
     (let import_total = import_for_load_ac_mwh s + import_for_arbi_ac_mwh s
      in case cap_grid_import_ac_mwh h of
           Finite cap \<Rightarrow>
             if import_total > cap + EPS
             then (let overflow = import_total - cap;
                       cut_arbi = min (import_for_arbi_ac_mwh s) overflow;
                       s1 = cut_import_arbi P h cut_arbi s;
                       s2 = cut_import_load (overflow - cut_arbi) s1
                   in s2\<lparr> bind_import_cap := True \<rparr>)
             else s
         | _ \<Rightarrow> s)"

subsection \<open>Step 6: idle loss, SOC snapshots and SOC percentages\<close>

definition step_idle :: "commit_params \<Rightarrow> hour_st \<Rightarrow> hour_st" where
  "step_idle P s =
     (let s1 = s\<lparr> soc_oze_before_idle_mwh := soc_oze s,
                   soc_arbi_before_idle_mwh := soc_arbi s \<rparr>;
          s2 = (if lambda_h P > EPS
                then (let loss_oze = soc_oze s1 * lambda_h P;
                          loss_arbi = soc_arbi s1 * lambda_h P
                      in s1\<lparr> soc_oze := max 0 (soc_oze s1 - loss_oze),
                              soc_arbi := max 0 (soc_arbi s1 - loss_arbi),
                              loss_idle_oze_mwh := loss_idle_oze_mwh s1 + loss_oze,
                              loss_idle_arbi_mwh := loss_idle_arbi_mwh s1 + loss_arbi \<rparr>)
                else s1)
      in s2\<lparr> soc_oze_after_idle_mwh := soc_oze s2,
              soc_arbi_after_idle_mwh := soc_arbi s2 \<rparr>)"

definition step_pct :: "commit_params \<Rightarrow> hour_st \<Rightarrow> hour_st" where
  "step_pct P s =
     (let total_emax = max 0 (emax_oze P + emax_arbi P)
      in s\<lparr> soc_arbi_pct_of_arbi :=
               (if emax_arbi P > EPS then 100 * soc_arbi_after_idle_mwh s / emax_arbi P else 0),
             soc_arbi_pct_of_total :=
               (if total_emax > EPS then 100 * soc_arbi_after_idle_mwh s / total_emax else 0),
             soc_oze_pct_of_oze :=
               (if emax_oze P > EPS then 100 * soc_oze_after_idle_mwh s / emax_oze P else 0),
             soc_oze_pct_of_total :=
               (if total_emax > EPS then 100 * soc_oze_after_idle_mwh s / total_emax else 0) \<rparr>)"

subsection \<open>The hourly loop\<close>

text \<open>The state of iteration \<open>i\<close> after steps 1 to 4, before the grid caps are enforced.\<close>

definition steps_1_to_4 :: "commit_params \<Rightarrow> hour_in \<Rightarrow> real \<Rightarrow> real \<Rightarrow> hour_st" where
  "steps_1_to_4 P h so sa =
     step_arbi_from_grid P h (step_arbi_to_grid P h
       (step_deficit P h (step_surplus P h (init_hour h so sa))))"

definition commit_hour :: "commit_params \<Rightarrow> hour_in \<Rightarrow> real \<Rightarrow> real \<Rightarrow> hour_st" where
  "commit_hour P h so sa =
     step_pct P (step_idle P (enforce_import_cap P h (enforce_export_cap P h
       (steps_1_to_4 P h so sa))))"

fun commit_loop :: "commit_params \<Rightarrow> real \<Rightarrow> real \<Rightarrow> hour_in list \<Rightarrow> hour_st list" where
  "commit_loop P so sa [] = []"
| "commit_loop P so sa (h # hs) =
     (let s = commit_hour P h so sa in s # commit_loop P (soc_oze s) (soc_arbi s) hs)"

subsection \<open>Financial KPIs and the result\<close>

text \<open>\<open>np.where(np.isfinite(price), price, 0.0)\<close>.\<close>

fun price_eff :: "flt \<Rightarrow> real" where
  "price_eff (Finite p) = p"
| "price_eff PosInf = 0"
| "price_eff NegInf = 0"
| "price_eff NaN = 0"

text \<open>
  The revenue, cost and cashflow vectors are NumPy \<open>float64\<close> arrays, and each \<open>*\<close>, \<open>+\<close> and
  \<open>-\<close> on them rounds its exact result to the nearest binary64 number, ties to the even
  significand. \<open>bit_length n\<close> is the number of binary digits of \<open>n\<close>; \<open>ilog2 x\<close> is the
  integer part of the binary logarithm of \<open>|x|\<close> for \<open>x \<noteq> 0\<close>; the unit in the last place
  of \<open>x\<close> is \<open>2 ^ (ilog2 x - 52)\<close>, and \<open>2 ^ (-1074)\<close> below the normal range. Results beyond
  the largest binary64 number (overflow to \<open>inf\<close>) are outside the model.
\<close>

fun bit_length :: "nat \<Rightarrow> nat" where
  "bit_length n = (if n = 0 then 0 else Suc (bit_length (n div 2)))"

declare bit_length.simps [simp del]

definition pow2 :: "int \<Rightarrow> real" where
  "pow2 e = (if 0 \<le> e then 2 ^ nat e else 1 / 2 ^ nat (- e))"

definition ilog2 :: "real \<Rightarrow> int" where
  "ilog2 x = (if 1 \<le> \<bar>x\<bar> then int (bit_length (nat \<lfloor>\<bar>x\<bar>\<rfloor>)) - 1
              else - int (bit_length (nat (\<lceil>1 / \<bar>x\<bar>\<rceil> - 1))))"

definition round_half_even :: "real \<Rightarrow> int" where
  "round_half_even y =
     (let f = \<lfloor>y\<rfloor>; d = y - of_int f
      in if d < 1 / 2 then f else if 1 / 2 < d then f + 1 else if even f then f else f + 1)"

definition round_double :: "real \<Rightarrow> real" where
  "round_double x =
     (if x = 0 then 0
      else (let ulp = pow2 (max (ilog2 x) (- 1022) - 52)
            in of_int (round_half_even (x / ulp)) * ulp))"

definition fmul :: "real \<Rightarrow> real \<Rightarrow> real" where
  "fmul x y = round_double (x * y)"

definition fadd :: "real \<Rightarrow> real \<Rightarrow> real" where
  "fadd x y = round_double (x + y)"

definition fsub :: "real \<Rightarrow> real \<Rightarrow> real" where
  "fsub x y = round_double (x - y)"

record commit_row =
  flows :: hour_st
  price_import_out :: flt
  price_export_out :: flt
  rev_arbi_to_grid_pln :: real
  rev_surplus_export_pln :: real
  cost_grid_to_arbi_pln :: real
  cost_import_for_load_pln :: real
  cashflow_arbi_pln :: real
  cashflow_net_pln :: real

text \<open>
  The KPI lines of \<open>run\<close> for one hour. \<open>cashflow_net_pln\<close> is the source's
  \<open>rev_arbi + rev_surplus - cost_arbi - cost_load\<close>, evaluated from the left.
\<close>

definition kpi_row :: "hour_in \<Rightarrow> hour_st \<Rightarrow> commit_row" where
  "kpi_row h s =
     (let price_import_eff = price_eff (price_import_pln_mwh h);
          price_export_eff = price_eff (price_export_pln_mwh h);
          rev_arbi = fmul (export_from_arbi_ac_mwh s) price_export_eff;
          rev_surplus = fmul (export_from_surplus_ac_mwh s) price_export_eff;
          cost_arbi = fmul (import_for_arbi_ac_mwh s) price_import_eff;
          cost_load = fmul (import_for_load_ac_mwh s) price_import_eff
      in \<lparr> flows = s,
           price_import_out = price_import_pln_mwh h,
           price_export_out = price_export_pln_mwh h,
           rev_arbi_to_grid_pln = rev_arbi,
           rev_surplus_export_pln = rev_surplus,
           cost_grid_to_arbi_pln = cost_arbi,
           cost_import_for_load_pln = cost_load,
           cashflow_arbi_pln = fsub rev_arbi cost_arbi,
           cashflow_net_pln = fsub (fsub (fadd rev_arbi rev_surplus) cost_arbi) cost_load \<rparr>)"

text \<open>
  \<open>run(H, P)\<close> of stage 03: \<open>soc0_oze\<close> and \<open>soc0_arbi\<close> are \<open>H["soc0_oze_mwh"]\<close> and
  \<open>H["soc0_arbi_mwh"]\<close>; the result has one row per hour.
\<close>

definition commit_run :: "commit_params \<Rightarrow> real \<Rightarrow> real \<Rightarrow> hour_in list \<Rightarrow> commit_row list" where
  "commit_run P soc0_oze soc0_arbi hs =
     map2 kpi_row hs (commit_loop P soc0_oze soc0_arbi hs)"
subsection \<open>Predicates and sample inputs used in the proofs of stage 03\<close>

definition soc_ok :: "commit_params \<Rightarrow> hour_st \<Rightarrow> bool" where
  "soc_ok P s \<longleftrightarrow> 0 \<le> soc_oze s \<and> soc_oze s \<le> emax_oze P \<and> 0 \<le> soc_arbi s \<and> soc_arbi s \<le> emax_arbi P"

definition snap_ok :: "commit_params \<Rightarrow> hour_st \<Rightarrow> bool" where
  "snap_ok P s \<longleftrightarrow>
     0 \<le> soc_oze_before_idle_mwh s \<and> soc_oze_before_idle_mwh s \<le> emax_oze P \<and>
     0 \<le> soc_oze_after_idle_mwh s \<and> soc_oze_after_idle_mwh s \<le> emax_oze P \<and>
     0 \<le> soc_arbi_before_idle_mwh s \<and> soc_arbi_before_idle_mwh s \<le> emax_arbi P \<and>
     0 \<le> soc_arbi_after_idle_mwh s \<and> soc_arbi_after_idle_mwh s \<le> emax_arbi P"

definition tiny_free :: "real \<Rightarrow> bool" where
  "tiny_free x \<longleftrightarrow> x = 0 \<or> EPS < x"

definition ac4 :: "hour_st \<Rightarrow> real \<times> real \<times> real \<times> real" where
  "ac4 s = (export_from_surplus_ac_mwh s, export_from_arbi_ac_mwh s,
            import_for_load_ac_mwh s, import_for_arbi_ac_mwh s)"

definition ex_params :: commit_params where
  "ex_params = \<lparr> emax_arbi = 1, emax_oze = 1, eta_ch = 1, eta_dis = 1, lambda_h = 0,
                   arbi_dis_to_load = True \<rparr>"

definition ex_hour :: hour_in where
  "ex_hour = \<lparr> cap_grid_export_ac_mwh = Finite 1, cap_grid_import_ac_mwh = Finite 1,
                cap_bess_charge_net_mwh = Finite 1, cap_bess_discharge_net_mwh = Finite 1,
                H_surplus_net_mwh = 5, deficit_net_mwh = 0,
                price_import_pln_mwh = NaN, price_export_pln_mwh = Finite 100,
                prop_arbi_dis_to_grid_ac_mwh = 1 / 2, prop_arbi_ch_from_grid_ac_mwh = 0 \<rparr>"

text \<open>
  The spec's reading of a missing price: the same hour with every price that is NaN,
  \<open>+inf\<close> or \<open>-inf\<close> replaced by 0 PLN/MWh.
\<close>

definition zero_if_missing :: "flt \<Rightarrow> flt" where
  "zero_if_missing p = (if isfinite p then p else Finite 0)"

definition missing_prices_as_zero :: "hour_in \<Rightarrow> hour_in" where
  "missing_prices_as_zero h =
     h\<lparr> price_import_pln_mwh := zero_if_missing (price_import_pln_mwh h),
        price_export_pln_mwh := zero_if_missing (price_export_pln_mwh h) \<rparr>"

text \<open>
  Two hours with missing prices and flows that meet them: in the first, 5 MWh of surplus
  meet full pools and an export price of \<open>+inf\<close>; in the second, a deficit of 3 MWh meets
  an import price of NaN.
\<close>

definition ex_hour_export_inf :: hour_in where
  "ex_hour_export_inf = ex_hour\<lparr> price_import_pln_mwh := Finite 100, price_export_pln_mwh := PosInf \<rparr>"

definition ex_hour_import_nan :: hour_in where
  "ex_hour_import_nan = ex_hour\<lparr> H_surplus_net_mwh := 0, deficit_net_mwh := 3,
      prop_arbi_dis_to_grid_ac_mwh := 0 \<rparr>"

text \<open>
  One hour in which the ARBI pool sells 0.5 MWh and buys 0.25 MWh while 1 MWh of surplus
  is exported, all at the binary64 number nearest to 412.37 PLN/MWh.
\<close>

definition price_412_37 :: real where
  "price_412_37 = 3627244879567913 / 2 ^ 43"

definition ex_hour_rounding :: hour_in where
  "ex_hour_rounding =
     \<lparr> cap_grid_export_ac_mwh = Finite 10, cap_grid_import_ac_mwh = Finite 10,
       cap_bess_charge_net_mwh = Finite 10, cap_bess_discharge_net_mwh = Finite 10,
       H_surplus_net_mwh = 1, deficit_net_mwh = 0,
       price_import_pln_mwh = Finite price_412_37, price_export_pln_mwh = Finite price_412_37,
       prop_arbi_dis_to_grid_ac_mwh = 1 / 2, prop_arbi_ch_from_grid_ac_mwh = 1 / 4 \<rparr>"

section \<open>Stage 01: tariff-zone masks (\<open>01_ingest.py\<close>)\<close>

text \<open>
  The errors the mask construction raises (\<open>RuntimeError\<close> in the source): a window bound
  outside \<open>0..24\<close>, a collision of the AM and PM masks, and a mask total other than 24.
\<close>

datatype ingest_error = WindowOutOfRange | MaskOverlap | MaskSumNot24

text \<open>
  \<open>_window\<close>: the two bounds of a window, already parsed to integers
  (\<open>int(float(s or 0))\<close>), checked against \<open>0..24\<close>.
\<close>

definition window :: "int \<Rightarrow> int \<Rightarrow> ingest_error + (int \<times> int)" where
  "window s e = (if 0 \<le> s \<and> s \<le> 24 \<and> 0 \<le> e \<and> e \<le> 24 then Inr (s, e)
                 else Inl WindowOutOfRange)"

text \<open>
  The slice assignment \<open>m[a:b] = 1\<close> on a mask, for bounds \<open>0 \<le> a, b \<le> len(m)\<close>
  (the bounds \<open>_window\<close> lets through): the cells \<open>a \<le> i < b\<close> become 1.
\<close>

definition slice_ones :: "nat list \<Rightarrow> int \<Rightarrow> int \<Rightarrow> nat list" where
  "slice_ones m a b = map (\<lambda>i. if a \<le> int i \<and> int i < b then 1 else m ! i) [0..<length m]"

text \<open>\<open>_mask_from_se\<close>: the 24-hour 0/1 mask of the window \<open>[s, e)\<close>.\<close>

definition mask_from_se :: "int \<Rightarrow> int \<Rightarrow> nat list" where
  "mask_from_se s e =
     (let m = replicate 24 0
      in if s = 0 \<and> e = 0 then m
         else if s < e then slice_ones m s e
         else slice_ones (slice_ones m s 24) 0 e)"

text \<open>\<open>_build_peak_masks_24h_am_pm\<close>: the \<open>morn\<close> window is read and checked first.\<close>

definition build_peak_masks_24h_am_pm ::
  "int \<Rightarrow> int \<Rightarrow> int \<Rightarrow> int \<Rightarrow> ingest_error + (nat list \<times> nat list)" where
  "build_peak_masks_24h_am_pm s_morn e_morn s_aft e_aft =
     (case window s_morn e_morn of
        Inl err \<Rightarrow> Inl err
      | Inr (s_am, e_am) \<Rightarrow>
          (case window s_aft e_aft of
             Inl err \<Rightarrow> Inl err
           | Inr (s_pm, e_pm) \<Rightarrow> Inr (mask_from_se s_am e_am, mask_from_se s_pm e_pm)))"

text \<open>
  The body of \<open>if key not in cache_masks\<close> in \<open>run\<close>: the three 24-hour masks
  \<open>(hours24_am, hours24_pm, hours24_off)\<close> of one (month, mode). On 0/1 cells the
  elementwise \<open>&\<close> is \<open>min\<close> and \<open>|\<close> is \<open>max\<close>.
\<close>

definition month_masks ::
  "int \<Rightarrow> int \<Rightarrow> int \<Rightarrow> int \<Rightarrow> ingest_error + (nat list \<times> nat list \<times> nat list)" where
  "month_masks s_morn e_morn s_aft e_aft =
     (case build_peak_masks_24h_am_pm s_morn e_morn s_aft e_aft of
        Inl err \<Rightarrow> Inl err
      | Inr (hours24_am, hours24_pm) \<Rightarrow>
          (let am_sum = sum_list hours24_am; pm_sum = sum_list hours24_pm
           in if am_sum = 0 \<and> pm_sum = 0
              then Inr (replicate 24 0, replicate 24 0, replicate 24 1)
              else (let overlap = sum_list (map2 min hours24_am hours24_pm)
                    in if overlap > 0 then Inl MaskOverlap
                       else (let hours24_off = map (\<lambda>v. 1 - v) (map2 max hours24_am hours24_pm)
                             in if sum_list hours24_off + am_sum + pm_sum \<noteq> 24
                                then Inl MaskSumNot24
                                else Inr (hours24_am, hours24_pm, hours24_off)))))"

text \<open>Hour \<open>h\<close> lies in the mask the source builds for the window \<open>(s, e)\<close>.\<close>

definition in_window :: "int \<Rightarrow> int \<Rightarrow> nat \<Rightarrow> bool" where
  "in_window s e h \<longleftrightarrow>
     \<not> (s = 0 \<and> e = 0) \<and> (if s < e then s \<le> int h \<and> int h < e else s \<le> int h \<or> int h < e)"

section \<open>Stage 04b: the K coefficient of the capacity fee (\<open>04b_pricing_dyst.py\<close>)\<close>

datatype pricing_error = IndexError

text \<open>
  \<open>to_K\<close>, the local function of \<open>_compute_K_A_per_day\<close>: \<open>thr\<close> is the sorted threshold
  list; \<open>thr[k]\<close> raises \<open>IndexError\<close> when the list is too short, and is only read when
  the comparisons before it fail.
\<close>

definition to_K :: "real list \<Rightarrow> real \<Rightarrow> pricing_error + string" where
  "to_K thr delta_s =
     (if length thr \<le> 0 then Inl IndexError
      else if delta_s < thr ! 0 then Inr ''K1''
      else if length thr \<le> 1 then Inl IndexError
      else if delta_s < thr ! 1 then Inr ''K2''
      else if length thr \<le> 2 then Inl IndexError
      else if delta_s < thr ! 2 then Inr ''K3''
      else Inr ''K4'')"

text \<open>
  The rows of one day: \<open>idx = (day_id == did)\<close> applied to the three hourly vectors, which
  \<open>run\<close> checks to have the same length \<open>N\<close>. A row is (consumption, peak flag, day).
\<close>

definition day_rows :: "real list \<Rightarrow> int list \<Rightarrow> int list \<Rightarrow> int \<Rightarrow> (real \<times> int \<times> int) list" where
  "day_rows pobor is_cap_peak day_id did =
     filter (\<lambda>r. snd (snd r) = did) (zip pobor (zip is_cap_peak day_id))"

text \<open>The body of the loop over \<open>np.unique(day_id)\<close>: \<open>delta_s\<close> of one day.\<close>

definition day_delta_s :: "real list \<Rightarrow> int list \<Rightarrow> int list \<Rightarrow> int \<Rightarrow> real" where
  "day_delta_s pobor is_cap_peak day_id did =
     (let rows = day_rows pobor is_cap_peak day_id did;
          peak = map fst (filter (\<lambda>r. fst (snd r) = 1) rows);
          off = map fst (filter (\<lambda>r. fst (snd r) = 0) rows);
          Np = max (int (length (filter (\<lambda>r. fst (snd r) = 1) rows))) 0;
          Nf = max (int (length (filter (\<lambda>r. fst (snd r) = 0) rows))) 0;
          E_peak = sum_list peak;
          E_off = sum_list off
      in if Nf = 0 then 10 ^ 9
         else (let avg_peak = E_peak / real_of_int (max Np 1);
                   avg_off = E_off / real_of_int (max Nf 1)
               in if avg_off \<le> 0 \<and> avg_peak > 0 then 10 ^ 9
                  else if avg_off \<le> 0 \<and> avg_peak \<le> 0 then 0
                  else (avg_peak / avg_off - 1) * 100))"

text \<open>
  One day's entry of the three dictionaries: \<open>(delta_s, A, Kg)\<close> with
  \<open>A = float(k_A_values.get(Kg, 1.0))\<close>. \<open>thr\<close> is already sorted.
\<close>

definition day_K_A ::
  "real list \<Rightarrow> int list \<Rightarrow> int list \<Rightarrow> real list \<Rightarrow> (string \<rightharpoonup> real) \<Rightarrow> int
     \<Rightarrow> pricing_error + (real \<times> real \<times> string)" where
  "day_K_A pobor is_cap_peak day_id thr k_A_values did =
     (let delta_s = day_delta_s pobor is_cap_peak day_id did
      in case to_K thr delta_s of
           Inl err \<Rightarrow> Inl err
         | Inr Kg \<Rightarrow> Inr (delta_s, (case k_A_values Kg of None \<Rightarrow> 1 | Some a \<Rightarrow> a), Kg))"

fun collect :: "('e + 'a) list \<Rightarrow> 'e + 'a list" where
  "collect [] = Inr []"
| "collect (x # xs) =
     (case x of
        Inl err \<Rightarrow> Inl err
      | Inr v \<Rightarrow> (case collect xs of Inl err \<Rightarrow> Inl err | Inr vs \<Rightarrow> Inr (v # vs)))"

text \<open>
  \<open>_compute_K_A_per_day\<close>. The source fills three dictionaries keyed by day in a loop over
  \<open>np.unique(day_id)\<close> and then reads them once per hour; the model computes the entry of
  each hour's day where it is read. An \<open>IndexError\<close> in any day aborts the call in both.
  The result has one triple \<open>(dS_vec[i], A_vec[i], K_group_vec[i])\<close> per hour.
\<close>

definition compute_K_A_per_day ::
  "real list \<Rightarrow> int list \<Rightarrow> int list \<Rightarrow> real list \<Rightarrow> (string \<rightharpoonup> real)
     \<Rightarrow> pricing_error + (real \<times> real \<times> string) list" where
  "compute_K_A_per_day pobor is_cap_peak day_id k_thresholds_pct k_A_values =
     (let thr = sort k_thresholds_pct
      in collect (map (day_K_A pobor is_cap_peak day_id thr k_A_values) day_id))"

text \<open>
  The capacity fee of \<open>run\<close>, hour by hour, for one scenario's consumption series:
  \<open>sys_moc_i = e_i * sys_moc * A_day_i * (1 if cap_peak[i] == 1 else 0)\<close>.
\<close>

definition sys_moc_fee :: "real \<Rightarrow> real \<Rightarrow> real \<Rightarrow> int \<Rightarrow> real" where
  "sys_moc_fee e_i sys_moc A_day_i cap_peak_i =
     e_i * sys_moc * A_day_i * (if cap_peak_i = 1 then 1 else 0)"

definition capacity_fees ::
  "real list \<Rightarrow> int list \<Rightarrow> int list \<Rightarrow> real list \<Rightarrow> (string \<rightharpoonup> real) \<Rightarrow> real
     \<Rightarrow> pricing_error + real list" where
  "capacity_fees pobor cap_peak day_id k_thr k_A sys_moc =
     (case compute_K_A_per_day pobor cap_peak day_id k_thr k_A of
        Inl err \<Rightarrow> Inl err
      | Inr K_info \<Rightarrow>
          Inr (map (\<lambda>i. sys_moc_fee (pobor ! i) sys_moc (fst (snd (K_info ! i))) (cap_peak ! i))
                 [0..<length pobor]))"

text \<open>The coefficient table of scenario S6 and a sample day of four hours, two of them peak.\<close>

definition s6_k_A :: "string \<rightharpoonup> real" where
  "s6_k_A = [''K1'' \<mapsto> 17 / 100, ''K2'' \<mapsto> 1 / 2, ''K3'' \<mapsto> 83 / 100, ''K4'' \<mapsto> 1]"

section \<open>Stage 02: arbitrage proposer (\<open>02_proposer.py\<close>)\<close>

subsection \<open>Daily pairing (\<open>_build_daily_pairs\<close>)\<close>

text \<open>
  The price vectors of stage 02 are \<open>float64\<close> arrays that stage 01 fills with NaN where an
  hour has no price, so a price is a \<open>flt\<close>. \<open>flt_neg\<close> is the unary minus, \<open>flt_sub\<close> the
  subtraction and \<open>flt_ge0\<close> the test \<open>x >= 0.0\<close> of IEEE 754 on them: NaN propagates, and
  every comparison with NaN is false. Sums and differences of finite numbers in this stage
  are taken without rounding.
\<close>

fun flt_neg :: "flt \<Rightarrow> flt" where
  "flt_neg (Finite x) = Finite (- x)"
| "flt_neg PosInf = NegInf"
| "flt_neg NegInf = PosInf"
| "flt_neg NaN = NaN"

fun flt_sub :: "flt \<Rightarrow> flt \<Rightarrow> flt" where
  "flt_sub (Finite a) (Finite b) = Finite (a - b)"
| "flt_sub (Finite a) PosInf = NegInf"
| "flt_sub (Finite a) NegInf = PosInf"
| "flt_sub (Finite a) NaN = NaN"
| "flt_sub PosInf (Finite b) = PosInf"
| "flt_sub PosInf PosInf = NaN"
| "flt_sub PosInf NegInf = PosInf"
| "flt_sub PosInf NaN = NaN"
| "flt_sub NegInf (Finite b) = NegInf"
| "flt_sub NegInf PosInf = NegInf"
| "flt_sub NegInf NegInf = NaN"
| "flt_sub NegInf NaN = NaN"
| "flt_sub NaN y = NaN"

fun flt_ge0 :: "flt \<Rightarrow> bool" where
  "flt_ge0 (Finite x) = (0 \<le> x)"
| "flt_ge0 PosInf = True"
| "flt_ge0 NegInf = False"
| "flt_ge0 NaN = False"

text \<open>
  \<open>np.argsort(xs)\<close> is called with the default \<open>kind\<close>, which NumPy documents as not stable:
  the result holds every index of \<open>xs\<close> once, with the values in ascending order and NaN
  last (\<open>sort_rank\<close> is that order), and the order of indices with equal values is not
  fixed. \<open>is_argsort xs js\<close> says that \<open>js\<close> is such a result, and the sort in use is a
  parameter \<open>asort\<close> of the model, bound by \<open>argsort_ok\<close>. Two sorts that meet it:
  \<open>argsort_stable\<close> keeps equal values in index order (\<open>kind='stable'\<close>, the order the
  source's comments assume), \<open>argsort_ties_desc\<close> puts equal values in descending index
  order.
\<close>

fun sort_rank :: "flt \<Rightarrow> nat \<times> real" where
  "sort_rank NegInf = (0, 0)"
| "sort_rank (Finite x) = (1, x)"
| "sort_rank PosInf = (2, 0)"
| "sort_rank NaN = (3, 0)"

definition is_argsort :: "flt list \<Rightarrow> nat list \<Rightarrow> bool" where
  "is_argsort xs js \<longleftrightarrow>
     sort js = [0..<length xs] \<and> sorted (map (\<lambda>j. sort_rank (xs ! j)) js)"

definition argsort_ok :: "(flt list \<Rightarrow> nat list) \<Rightarrow> bool" where
  "argsort_ok asort \<longleftrightarrow> (\<forall>xs. is_argsort xs (asort xs))"

definition argsort_stable :: "flt list \<Rightarrow> nat list" where
  "argsort_stable xs = sort_key (\<lambda>j. sort_rank (xs ! j)) [0..<length xs]"

definition argsort_ties_desc :: "flt list \<Rightarrow> nat list" where
  "argsort_ties_desc xs = sort_key (\<lambda>j. sort_rank (xs ! j)) (rev [0..<length xs])"

text \<open>The Python slice \<open>xs[:k]\<close> for an integer \<open>k\<close> of either sign.\<close>

definition py_take :: "int \<Rightarrow> 'a list \<Rightarrow> 'a list" where
  "py_take k xs = (if 0 \<le> k then take (nat k) xs else take (nat (int (length xs) + k)) xs)"

text \<open>\<open>idx = hours[date_key == day]\<close>: the hour indices of one day, ascending.\<close>

definition day_idx :: "'d list \<Rightarrow> 'd \<Rightarrow> nat list" where
  "day_idx date_key day = filter (\<lambda>i. date_key ! i = day) [0..<length date_key]"

text \<open>
  \<open>cand_low\<close> after \<open>cand_low.sort()\<close>, and \<open>cand_high\<close> in the order of \<open>argsort\<close> of the
  negated export prices.
\<close>

definition cand_low :: "(flt list \<Rightarrow> nat list) \<Rightarrow> flt list \<Rightarrow> int \<Rightarrow> nat list \<Rightarrow> nat list" where
  "cand_low asort price_import cycles_per_day idx =
     sort (py_take cycles_per_day
             (map (\<lambda>j. idx ! j) (asort (map (\<lambda>i. price_import ! i) idx))))"

definition cand_high :: "(flt list \<Rightarrow> nat list) \<Rightarrow> flt list \<Rightarrow> int \<Rightarrow> nat list \<Rightarrow> nat list" where
  "cand_high asort price_export cycles_per_day idx =
     py_take cycles_per_day
       (map (\<lambda>j. idx ! j) (asort (map (\<lambda>i. flt_neg (price_export ! i)) idx)))"

text \<open>
  The loop \<open>for i_low in cand_low\<close>: the state is \<open>used_high\<close> and the two dictionaries.
  \<open>next((h for h in cand_high if h not in used_high and h > i_low), None)\<close> is \<open>find\<close>.
\<close>

fun pair_lows ::
  "nat list \<Rightarrow> nat list \<Rightarrow> nat set \<times> (nat \<rightharpoonup> nat) \<times> (nat \<rightharpoonup> nat)
     \<Rightarrow> nat set \<times> (nat \<rightharpoonup> nat) \<times> (nat \<rightharpoonup> nat)" where
  "pair_lows highs [] st = st"
| "pair_lows highs (i_low # lows) (used_high, k_low_by_hour, k_high_by_hour) =
     (case find (\<lambda>h. h \<notin> used_high \<and> h > i_low) highs of
        None \<Rightarrow> pair_lows highs lows (used_high, k_low_by_hour, k_high_by_hour)
      | Some i_high \<Rightarrow>
          pair_lows highs lows
            (insert i_high used_high, k_low_by_hour(i_low \<mapsto> i_high),
             k_high_by_hour(i_high \<mapsto> i_low)))"

text \<open>The body of \<open>for day in np.unique(date_key)\<close>; \<open>used_high\<close> starts empty each day.\<close>

definition pair_day ::
  "(flt list \<Rightarrow> nat list) \<Rightarrow> 'd list \<Rightarrow> flt list \<Rightarrow> flt list \<Rightarrow> int \<Rightarrow> 'd
     \<Rightarrow> (nat \<rightharpoonup> nat) \<times> (nat \<rightharpoonup> nat) \<Rightarrow> (nat \<rightharpoonup> nat) \<times> (nat \<rightharpoonup> nat)" where
  "pair_day asort date_key price_import price_export cycles_per_day day maps =
     (let idx = day_idx date_key day
      in snd (pair_lows (cand_high asort price_export cycles_per_day idx)
                (cand_low asort price_import cycles_per_day idx) ({}, fst maps, snd maps)))"

text \<open>\<open>_build_daily_pairs\<close>: \<open>np.unique\<close> yields the days sorted and without repetition.\<close>

definition build_daily_pairs ::
  "(flt list \<Rightarrow> nat list) \<Rightarrow> ('d::linorder) list \<Rightarrow> flt list \<Rightarrow> flt list \<Rightarrow> int
     \<Rightarrow> (nat \<rightharpoonup> nat) \<times> (nat \<rightharpoonup> nat)" where
  "build_daily_pairs asort date_key price_import price_export cycles_per_day =
     fold (pair_day asort date_key price_import price_export cycles_per_day)
       (sort (remdups date_key)) (Map.empty, Map.empty)"

subsection \<open>The hourly loop of \<open>run\<close>\<close>

text \<open>Scalars read from \<open>H\<close>; \<open>cycles_per_day\<close> is already \<open>int(...)\<close>.\<close>

record prop_params =
  p_emax_arbi :: real
  p_eta_ch :: real
  p_eta_dis :: real
  base_min_profit :: real
  cycles_per_day :: int
  allow_carry_over :: bool
  force_order :: bool
  soc_low_threshold_pct :: real
  soc_high_threshold_pct :: real
  hour_bonus_ch :: real
  hour_bonus_dis :: real
  soc_bonus_ch :: real
  soc_bonus_dis :: real
  soc_arbi_start :: real

text \<open>
  The entries at index \<open>i\<close> of the hourly vectors of \<open>H\<close>. A price may be NaN or infinite.
  The grid caps are finite; a BESS cap is \<open>None\<close> when it is \<open>+inf\<close> (the default when \<open>H\<close> has
  no such vector).
\<close>

record 'd prop_hour =
  date_key :: 'd
  price_import :: flt
  price_export :: flt
  cap_grid_import_ac :: real
  cap_grid_export_ac :: real
  cap_bess_charge_net :: "real option"
  cap_bess_discharge_net :: "real option"
  bonus_ch_mask :: bool
  bonus_dis_mask :: bool

text \<open>\<open>cap_eff_ch_ac[i]\<close> and \<open>cap_eff_dis_ac[i]\<close>.\<close>

definition cap_eff_ch_ac :: "prop_params \<Rightarrow> 'd prop_hour \<Rightarrow> real" where
  "cap_eff_ch_ac P h =
     bmin (cap_grid_import_ac h)
       (map_option (\<lambda>c. c / max (p_eta_ch P) EPS) (cap_bess_charge_net h))"

definition cap_eff_dis_ac :: "prop_params \<Rightarrow> 'd prop_hour \<Rightarrow> real" where
  "cap_eff_dis_ac P h =
     bmin (cap_grid_export_ac h)
       (map_option (\<lambda>c. c * max (p_eta_dis P) EPS) (cap_bess_discharge_net h))"

text \<open>The state carried from hour to hour.\<close>

record 'd prop_st =
  soc_curr :: real
  pending_arbi_net :: real
  cycles_used :: "'d \<Rightarrow> int"
  prev_day :: "'d option"

text \<open>
  The cells at index \<open>i\<close> of the output buffers. \<open>delta_k\<close> and the two margins stay NaN where
  the hour is in no pair; the pair hours are \<open>-1\<close> there.
\<close>

record prop_row =
  prop_ch_ac :: real
  prop_dis_ac :: real
  dec_ch :: bool
  dec_dis :: bool
  dec_ch_base :: bool
  dec_dis_base :: bool
  thr_low :: real
  thr_high :: real
  delta_k :: flt
  dk_minus_thr_low :: flt
  dk_minus_thr_high :: flt
  pending_arr :: real
  soc_sim_arr :: real
  in_ch_bonus_arr :: bool
  in_dis_bonus_arr :: bool
  low_soc_bonus_hit_arr :: bool
  high_soc_bonus_hit_arr :: bool
  cycles_used_today_arr :: int
  pair_low_hour :: int
  pair_high_hour :: int

text \<open>Step 0 of an iteration: the day boundary.\<close>

definition day_boundary :: "prop_params \<Rightarrow> 'd \<Rightarrow> 'd prop_st \<Rightarrow> 'd prop_st" where
  "day_boundary P day st =
     (if prev_day st = None \<or> prev_day st \<noteq> Some day
      then (if \<not> allow_carry_over P
            then st\<lparr> pending_arbi_net := 0, prev_day := Some day \<rparr>
            else st\<lparr> prev_day := Some day \<rparr>)
      else st)"

text \<open>Steps 3 and 4: the two thresholds, from the SOC at the top of the iteration.\<close>

definition thr_l_of :: "prop_params \<Rightarrow> 'd prop_hour \<Rightarrow> real \<Rightarrow> real" where
  "thr_l_of P h soc =
     base_min_profit P + (if bonus_ch_mask h then hour_bonus_ch P else 0)
       + (if soc \<le> p_emax_arbi P * (soc_low_threshold_pct P / 100) then soc_bonus_ch P else 0)"

definition thr_h_of :: "prop_params \<Rightarrow> 'd prop_hour \<Rightarrow> real \<Rightarrow> real" where
  "thr_h_of P h soc =
     base_min_profit P + (if bonus_dis_mask h then hour_bonus_dis P else 0)
       + (if soc \<ge> p_emax_arbi P * (soc_high_threshold_pct P / 100) then soc_bonus_dis P else 0)"

text \<open>
  Step 7, the charge signal of a low hour: \<open>headroom\<close> and \<open>thr_l\<close> are the values computed
  at the top of the iteration. The result is the state and the cells
  \<open>(dec_ch_base[i], dec_ch[i], prop_ch_ac[i])\<close>.
\<close>

definition charge_signal ::
  "prop_params \<Rightarrow> 'd prop_hour \<Rightarrow> flt \<Rightarrow> real \<Rightarrow> real \<Rightarrow> 'd prop_st
     \<Rightarrow> 'd prop_st \<times> bool \<times> bool \<times> real" where
  "charge_signal P h dk thr_l headroom st =
     (let base = (flt_ge0 (flt_sub dk (Finite thr_l)) \<and> headroom > EPS
                   \<and> cycles_used st (date_key h) < cycles_per_day P)
      in if base
         then (let cap_ch_ac = cap_eff_ch_ac P h;
                   cap_ch_net_from_ac = cap_ch_ac * max (p_eta_ch P) EPS;
                   charge_net = min cap_ch_net_from_ac headroom
               in if charge_net > EPS
                  then (st\<lparr> soc_curr := min (p_emax_arbi P) (soc_curr st + charge_net),
                            pending_arbi_net := pending_arbi_net st + charge_net \<rparr>,
                        True, True, charge_net / max (p_eta_ch P) EPS)
                  else (st, True, False, 0))
         else (st, False, False, 0))"

text \<open>
  Step 8, the discharge signal of a high hour, on the state the charge signal left. The
  result is the state and the cells \<open>(dec_dis_base[i], dec_dis[i], prop_dis_ac[i])\<close>.
\<close>

definition discharge_signal ::
  "prop_params \<Rightarrow> 'd prop_hour \<Rightarrow> flt \<Rightarrow> real \<Rightarrow> 'd prop_st
     \<Rightarrow> 'd prop_st \<times> bool \<times> bool \<times> real" where
  "discharge_signal P h dk thr_h st =
     (let cap_dis_ac = cap_eff_dis_ac P h;
          cap_dis_net_from_ac = cap_dis_ac / max (p_eta_dis P) EPS;
          can_dis0 = min cap_dis_net_from_ac (soc_curr st);
          can_dis = (if force_order P then min can_dis0 (pending_arbi_net st) else can_dis0);
          base = (flt_ge0 (flt_sub dk (Finite thr_h)) \<and> can_dis > EPS
                   \<and> cycles_used st (date_key h) < cycles_per_day P)
      in if base
         then (let pending' = max 0 (pending_arbi_net st - can_dis);
                   st1 = st\<lparr> soc_curr := max 0 (soc_curr st - can_dis),
                             pending_arbi_net := pending' \<rparr>;
                   st2 = (if pending' \<le> EPS
                          then st1\<lparr> cycles_used :=
                                 (cycles_used st1)(date_key h := cycles_used st1 (date_key h) + 1) \<rparr>
                          else st1)
               in (st2, True, True, can_dis * max (p_eta_dis P) EPS))
         else (st, False, False, 0))"

text \<open>One iteration of the loop \<open>for i in range(N)\<close>.\<close>

definition prop_step ::
  "prop_params \<Rightarrow> (nat \<rightharpoonup> nat) \<Rightarrow> (nat \<rightharpoonup> nat) \<Rightarrow> 'd prop_hour list \<Rightarrow> nat \<Rightarrow> 'd prop_st
     \<Rightarrow> prop_row \<times> 'd prop_st" where
  "prop_step P k_low_by_hour k_high_by_hour hs i st0 =
     (let h = hs ! i;
          day = date_key h;
          st = day_boundary P day st0;
          is_low = (k_low_by_hour i \<noteq> None);
          is_high = (k_high_by_hour i \<noteq> None);
          in_ch_bonus = bonus_ch_mask h;
          in_dis_bonus = bonus_dis_mask h;
          emax = p_emax_arbi P;
          headroom = max 0 (emax - soc_curr st);
          low_soc_bonus_hit = (soc_curr st \<le> emax * (soc_low_threshold_pct P / 100));
          high_soc_bonus_hit = (soc_curr st \<ge> emax * (soc_high_threshold_pct P / 100));
          thr_l = thr_l_of P h (soc_curr st);
          thr_h = thr_h_of P h (soc_curr st);
          row0 = \<lparr> prop_ch_ac = 0, prop_dis_ac = 0, dec_ch = False, dec_dis = False,
                   dec_ch_base = False, dec_dis_base = False,
                   thr_low = thr_l, thr_high = thr_h,
                   delta_k = NaN, dk_minus_thr_low = NaN, dk_minus_thr_high = NaN,
                   pending_arr = pending_arbi_net st, soc_sim_arr = soc_curr st,
                   in_ch_bonus_arr = in_ch_bonus, in_dis_bonus_arr = in_dis_bonus,
                   low_soc_bonus_hit_arr = low_soc_bonus_hit,
                   high_soc_bonus_hit_arr = high_soc_bonus_hit,
                   cycles_used_today_arr = cycles_used st day,
                   pair_low_hour = - 1, pair_high_hour = - 1 \<rparr>
      in if \<not> (is_low \<or> is_high) then (row0, st)
         else (let il = (if is_low then i else the (k_high_by_hour i));
                   ih = (if is_low then the (k_low_by_hour i) else i);
                   dk = flt_sub (price_export (hs ! ih)) (price_import (hs ! il));
                   c = (if is_low then charge_signal P h dk thr_l headroom st
                        else (st, False, False, 0));
                   d = (if is_high then discharge_signal P h dk thr_h (fst c)
                        else (fst c, False, False, 0));
                   st' = fst d
               in (row0\<lparr> prop_ch_ac := snd (snd (snd c)), prop_dis_ac := snd (snd (snd d)),
                         dec_ch := fst (snd (snd c)), dec_dis := fst (snd (snd d)),
                         dec_ch_base := fst (snd c), dec_dis_base := fst (snd d),
                         delta_k := dk,
                         dk_minus_thr_low := flt_sub dk (Finite thr_l),
                         dk_minus_thr_high := flt_sub dk (Finite thr_h),
                         pending_arr := pending_arbi_net st', soc_sim_arr := soc_curr st',
                         cycles_used_today_arr := cycles_used st' day,
                         pair_low_hour := int il, pair_high_hour := int ih \<rparr>,
                   st')))"

text \<open>The loop over the hours \<open>is\<close>, collecting the rows.\<close>

fun prop_loop ::
  "prop_params \<Rightarrow> (nat \<rightharpoonup> nat) \<Rightarrow> (nat \<rightharpoonup> nat) \<Rightarrow> 'd prop_hour list \<Rightarrow> nat list \<Rightarrow> 'd prop_st
     \<Rightarrow> prop_row list \<times> 'd prop_st" where
  "prop_loop P kl kh hs [] st = ([], st)"
| "prop_loop P kl kh hs (i # is) st =
     (let r = prop_step P kl kh hs i st;
          rest = prop_loop P kl kh hs is (snd r)
      in (fst r # fst rest, snd rest))"

definition prop_init :: "prop_params \<Rightarrow> 'd prop_st" where
  "prop_init P = \<lparr> soc_curr = soc_arbi_start P, pending_arbi_net = soc_arbi_start P,
                   cycles_used = (\<lambda>day. 0), prev_day = None \<rparr>"

text \<open>The call of \<open>_build_daily_pairs\<close> in \<open>run\<close>.\<close>

definition prop_pairs ::
  "(flt list \<Rightarrow> nat list) \<Rightarrow> prop_params \<Rightarrow> ('d::linorder) prop_hour list
     \<Rightarrow> (nat \<rightharpoonup> nat) \<times> (nat \<rightharpoonup> nat)" where
  "prop_pairs asort P hs =
     build_daily_pairs asort (map date_key hs) (map price_import hs) (map price_export hs)
       (cycles_per_day P)"

text \<open>\<open>run(H, P)\<close> of stage 02: one row per hour.\<close>

definition prop_run ::
  "(flt list \<Rightarrow> nat list) \<Rightarrow> prop_params \<Rightarrow> ('d::linorder) prop_hour list \<Rightarrow> prop_row list" where
  "prop_run asort P hs =
     fst (prop_loop P (fst (prop_pairs asort P hs)) (snd (prop_pairs asort P hs)) hs
            [0..<length hs] (prop_init P))"

text \<open>The simulated state at the top of iteration \<open>i\<close> of \<open>run\<close>, after the day boundary.\<close>

definition prop_state_before ::
  "(flt list \<Rightarrow> nat list) \<Rightarrow> prop_params \<Rightarrow> ('d::linorder) prop_hour list \<Rightarrow> nat \<Rightarrow> 'd prop_st" where
  "prop_state_before asort P hs i =
     day_boundary P (date_key (hs ! i))
       (snd (prop_loop P (fst (prop_pairs asort P hs)) (snd (prop_pairs asort P hs)) hs [0..<i]
               (prop_init P)))"

subsection \<open>Sample inputs of stage 02\<close>

text \<open>
  One day of hours with an import cap and an export cap of 0.4 MWh, no BESS cap vectors
  and no bonus hours; \<open>emax_arbi = 1\<close>, efficiencies 1, \<open>base_min_profit = 50\<close>,
  \<open>soc_low_threshold = 10\<close> percent and \<open>bonus_low_soc_ch = 30\<close>.
\<close>

definition ex_prop_params :: "int \<Rightarrow> real \<Rightarrow> prop_params" where
  "ex_prop_params k soc0 = \<lparr> p_emax_arbi = 1, p_eta_ch = 1, p_eta_dis = 1, base_min_profit = 50,
      cycles_per_day = k, allow_carry_over = False, force_order = False,
      soc_low_threshold_pct = 10, soc_high_threshold_pct = 90,
      hour_bonus_ch = 0, hour_bonus_dis = 0, soc_bonus_ch = 30, soc_bonus_dis = 0,
      soc_arbi_start = soc0 \<rparr>"

definition ex_prop_hour :: "real \<Rightarrow> real \<Rightarrow> nat prop_hour" where
  "ex_prop_hour p_imp p_exp = \<lparr> date_key = 1, price_import = Finite p_imp,
      price_export = Finite p_exp,
      cap_grid_import_ac = 2 / 5, cap_grid_export_ac = 2 / 5,
      cap_bess_charge_net = None, cap_bess_discharge_net = None,
      bonus_ch_mask = False, bonus_dis_mask = False \<rparr>"

subsection \<open>Daily pairing: the property it is checked against\<close>

text \<open>
  Orders on hours of one day: \<open>cheaper p a b\<close> when hour \<open>a\<close> has the lower price, or the same
  price and is the earlier hour; \<open>dearer p a b\<close> when \<open>a\<close> has the higher price, or the same
  price and is the earlier hour. A NaN price counts as the highest when the lowest prices
  are sought and as the lowest when the highest are sought, as in the sorted order of
  \<open>price\<close> and of \<open>-price\<close>.
\<close>

definition cheaper :: "flt list \<Rightarrow> nat \<Rightarrow> nat \<Rightarrow> bool" where
  "cheaper price a b \<longleftrightarrow>
     sort_rank (price ! a) < sort_rank (price ! b)
     \<or> (sort_rank (price ! a) = sort_rank (price ! b) \<and> a < b)"

definition dearer :: "flt list \<Rightarrow> nat \<Rightarrow> nat \<Rightarrow> bool" where
  "dearer price a b \<longleftrightarrow>
     sort_rank (flt_neg (price ! a)) < sort_rank (flt_neg (price ! b))
     \<or> (sort_rank (flt_neg (price ! a)) = sort_rank (flt_neg (price ! b)) \<and> a < b)"

text \<open>
  \<open>S\<close> holds the first \<open>K\<close> hours of \<open>idx\<close> in the order \<open>before\<close> (all of them when \<open>idx\<close> has
  fewer than \<open>K\<close>): every selected hour comes before every hour of the day left out.
\<close>

definition selects_first :: "(nat \<Rightarrow> nat \<Rightarrow> bool) \<Rightarrow> int \<Rightarrow> nat list \<Rightarrow> nat set \<Rightarrow> bool" where
  "selects_first before K idx S \<longleftrightarrow>
     S \<subseteq> set idx \<and> int (card S) = min K (int (length idx)) \<and>
     (\<forall>a\<in>S. \<forall>b\<in>set idx - S. before a b)"

text \<open>
  High hour \<open>h\<close> is still unused when low hour \<open>l\<close> is processed: no low candidate earlier
  than \<open>l\<close> has been paired with it.
\<close>

definition unused_at :: "(nat \<rightharpoonup> nat) \<Rightarrow> nat set \<Rightarrow> nat \<Rightarrow> nat \<Rightarrow> bool" where
  "unused_at kl L l h \<longleftrightarrow> (\<forall>l2\<in>L. l2 < l \<longrightarrow> kl l2 \<noteq> Some h)"

text \<open>
  The greedy rule over the low candidates \<open>L\<close> and the high candidates \<open>H\<close> of one day: a
  paired low hour has the dearest later high candidate that is still unused; an unpaired
  one has no later high candidate that is still unused.
\<close>

definition greedy_pairing :: "flt list \<Rightarrow> nat set \<Rightarrow> nat set \<Rightarrow> (nat \<rightharpoonup> nat) \<Rightarrow> bool" where
  "greedy_pairing p_exp L H kl \<longleftrightarrow>
     (\<forall>l\<in>L. case kl l of
         Some h \<Rightarrow> h \<in> H \<and> l < h \<and> unused_at kl L l h \<and>
           (\<forall>h'\<in>H. l < h' \<and> unused_at kl L l h' \<and> h' \<noteq> h \<longrightarrow> dearer p_exp h h')
       | None \<Rightarrow> (\<forall>h'\<in>H. l < h' \<longrightarrow> \<not> unused_at kl L l h'))"

text \<open>
  The pairs the loop \<open>for i_low in cand_low\<close> adds, in the order it adds them, and the pairs
  of one day.
\<close>

fun pairs_added :: "nat list \<Rightarrow> nat list \<Rightarrow> nat set \<Rightarrow> (nat \<times> nat) list" where
  "pairs_added highs [] used_high = []"
| "pairs_added highs (i_low # lows) used_high =
     (case find (\<lambda>h. h \<notin> used_high \<and> h > i_low) highs of
        None \<Rightarrow> pairs_added highs lows used_high
      | Some i_high \<Rightarrow> (i_low, i_high) # pairs_added highs lows (insert i_high used_high))"

definition day_pairs ::
  "(flt list \<Rightarrow> nat list) \<Rightarrow> 'd list \<Rightarrow> flt list \<Rightarrow> flt list \<Rightarrow> int \<Rightarrow> 'd \<Rightarrow> (nat \<times> nat) list" where
  "day_pairs asort dk p_imp p_exp k day =
     pairs_added (cand_high asort p_exp k (day_idx dk day))
       (cand_low asort p_imp k (day_idx dk day)) {}"

section \<open>Basic facts\<close>

lemma EPS_pos: "0 < EPS"
  by (simp add: EPS_def)

section \<open>Stage 03: proofs\<close>

lemma soc_ok_surplus_to_oze: "soc_ok P s \<Longrightarrow> soc_ok P (surplus_to_oze P s)"
  using EPS_pos by (auto simp: soc_ok_def surplus_to_oze_def Let_def)

lemma soc_ok_surplus_to_arbi: "soc_ok P s \<Longrightarrow> soc_ok P (surplus_to_arbi P h s)"
  using EPS_pos by (auto simp: soc_ok_def surplus_to_arbi_def Let_def)

lemma soc_ok_surplus_to_export: "soc_ok P s \<Longrightarrow> soc_ok P (surplus_to_export s)"
  by (auto simp: soc_ok_def surplus_to_export_def Let_def)

lemma soc_ok_step_surplus: "soc_ok P s \<Longrightarrow> soc_ok P (step_surplus P h s)"
  by (simp add: step_surplus_def soc_ok_surplus_to_oze soc_ok_surplus_to_arbi soc_ok_surplus_to_export)

lemma soc_ok_deficit_from_oze: "soc_ok P (snd ds) \<Longrightarrow> soc_ok P (snd (deficit_from_oze P ds))"
  using EPS_pos by (auto simp: soc_ok_def deficit_from_oze_def Let_def)

lemma soc_ok_deficit_from_arbi: "soc_ok P (snd ds) \<Longrightarrow> soc_ok P (snd (deficit_from_arbi P ds))"
  using EPS_pos by (auto simp: soc_ok_def deficit_from_arbi_def Let_def)

lemma soc_ok_deficit_to_import: "soc_ok P (snd ds) \<Longrightarrow> soc_ok P (deficit_to_import ds)"
  by (auto simp: soc_ok_def deficit_to_import_def Let_def)

lemma soc_ok_step_deficit: "soc_ok P s \<Longrightarrow> soc_ok P (step_deficit P h s)"
  by (simp add: step_deficit_def Let_def soc_ok_deficit_from_oze soc_ok_deficit_from_arbi soc_ok_deficit_to_import)

lemma bmin_nonneg: "0 \<le> x \<Longrightarrow> bgt b EPS \<Longrightarrow> 0 \<le> bmin x b"
  using EPS_pos by (cases b) auto

lemma used_net_nonneg:
  assumes "0 \<le> m" "EPS < out_ac"
  shows "0 \<le> min (if eta > EPS then out_ac / eta else out_ac) m"
proof -
  have "0 \<le> (if eta > EPS then out_ac / eta else out_ac)"
    using assms EPS_pos by auto
  with assms(1) show ?thesis by simp
qed

lemma soc_ok_step_arbi_to_grid: "soc_ok P s \<Longrightarrow> soc_ok P (step_arbi_to_grid P h s)"
proof -
  assume a: "soc_ok P s"
  show ?thesis
  proof (cases "bgt (dis_net_budget s) EPS \<and>
      EPS < min (prop_arbi_dis_to_grid_ac_mwh h) (bmin (soc_arbi s) (dis_net_budget s) * eta_dis P)")
    case True
    define out_ac where "out_ac = min (prop_arbi_dis_to_grid_ac_mwh h) (bmin (soc_arbi s) (dis_net_budget s) * eta_dis P)"
    define used where "used = min (if eta_dis P > EPS then out_ac / eta_dis P else out_ac) (bmin (soc_arbi s) (dis_net_budget s))"
    have m: "0 \<le> bmin (soc_arbi s) (dis_net_budget s)"
      using a True by (intro bmin_nonneg) (auto simp: soc_ok_def)
    have u: "0 \<le> used"
      unfolding used_def using m True by (intro used_net_nonneg) (auto simp: out_ac_def)
    have "soc_arbi (step_arbi_to_grid P h s) = max 0 (soc_arbi s - used)"
      and "soc_oze (step_arbi_to_grid P h s) = soc_oze s"
      using True by (simp_all add: step_arbi_to_grid_def Let_def used_def out_ac_def)
    then show ?thesis using a u by (auto simp: soc_ok_def)
  next
    case False
    then have "soc_arbi (step_arbi_to_grid P h s) = soc_arbi s"
      and "soc_oze (step_arbi_to_grid P h s) = soc_oze s"
      by (auto simp: step_arbi_to_grid_def Let_def)
    then show ?thesis using a by (simp add: soc_ok_def)
  qed
qed

lemma soc_ok_step_arbi_from_grid: "soc_ok P s \<Longrightarrow> soc_ok P (step_arbi_from_grid P h s)"
  using EPS_pos by (auto simp: soc_ok_def step_arbi_from_grid_def Let_def)

lemma soc_ok_cut_export_arbi: "soc_ok P s \<Longrightarrow> soc_ok P (cut_export_arbi P h c s)"
  using EPS_pos by (auto simp: soc_ok_def cut_export_arbi_def Let_def)

lemma soc_ok_cut_export_surplus: "soc_ok P s \<Longrightarrow> soc_ok P (cut_export_surplus c s)"
  by (auto simp: soc_ok_def cut_export_surplus_def Let_def)

lemma soc_ok_enforce_export_cap: "soc_ok P s \<Longrightarrow> soc_ok P (enforce_export_cap P h s)"
proof -
  assume a: "soc_ok P s"
  have b: "\<And>c o'. soc_ok P (cut_export_surplus o' (cut_export_arbi P h c s))"
    using a by (simp add: soc_ok_cut_export_arbi soc_ok_cut_export_surplus)
  have c: "\<And>t. soc_ok P t \<Longrightarrow> soc_ok P (t\<lparr>bind_export_cap := True\<rparr>)"
    by (simp add: soc_ok_def)
  show ?thesis
    using a b c by (simp add: enforce_export_cap_def Let_def split: flt.split)
qed

lemma soc_ok_cut_import_arbi: "soc_ok P s \<Longrightarrow> soc_ok P (cut_import_arbi P h c s)"
  using EPS_pos by (auto simp: soc_ok_def cut_import_arbi_def Let_def)

lemma soc_ok_cut_import_load: "soc_ok P s \<Longrightarrow> soc_ok P (cut_import_load c s)"
  by (auto simp: soc_ok_def cut_import_load_def Let_def)

lemma soc_ok_enforce_import_cap: "soc_ok P s \<Longrightarrow> soc_ok P (enforce_import_cap P h s)"
proof -
  assume a: "soc_ok P s"
  have b: "\<And>c o'. soc_ok P (cut_import_load o' (cut_import_arbi P h c s))"
    using a by (simp add: soc_ok_cut_import_arbi soc_ok_cut_import_load)
  have c: "\<And>t. soc_ok P t \<Longrightarrow> soc_ok P (t\<lparr>bind_import_cap := True\<rparr>)"
    by (simp add: soc_ok_def)
  show ?thesis
    using a b c by (simp add: enforce_import_cap_def Let_def split: flt.split)
qed

lemma idle_le: "0 \<le> x \<Longrightarrow> EPS < l \<Longrightarrow> x - x * l \<le> (x::real)"
  using EPS_pos by (simp add: mult_nonneg_nonneg)

lemma step_idle_ok: "soc_ok P s \<Longrightarrow> soc_ok P (step_idle P s) \<and> snap_ok P (step_idle P s)"
proof -
  assume a: "soc_ok P s"
  show ?thesis
  proof (cases "lambda_h P > EPS")
    case True
    have o: "soc_oze s - soc_oze s * lambda_h P \<le> soc_oze s"
      and r: "soc_arbi s - soc_arbi s * lambda_h P \<le> soc_arbi s"
      using a True idle_le[of "soc_oze s" "lambda_h P"] idle_le[of "soc_arbi s" "lambda_h P"]
      by (simp_all add: soc_ok_def)
    show ?thesis
      using a o r True by (auto simp: soc_ok_def snap_ok_def step_idle_def Let_def)
  next
    case False
    then show ?thesis
      using a by (auto simp: soc_ok_def snap_ok_def step_idle_def Let_def)
  qed
qed

lemma step_pct_ok: "soc_ok P s \<and> snap_ok P s \<Longrightarrow> soc_ok P (step_pct P s) \<and> snap_ok P (step_pct P s)"
  by (simp add: soc_ok_def snap_ok_def step_pct_def Let_def)

lemma init_hour_ok: "0 \<le> so \<Longrightarrow> so \<le> emax_oze P \<Longrightarrow> 0 \<le> sa \<Longrightarrow> sa \<le> emax_arbi P \<Longrightarrow> soc_ok P (init_hour h so sa)"
  by (simp add: soc_ok_def init_hour_def)

lemma commit_hour_ok:
  assumes "0 \<le> so" "so \<le> emax_oze P" "0 \<le> sa" "sa \<le> emax_arbi P"
  shows "soc_ok P (commit_hour P h so sa) \<and> snap_ok P (commit_hour P h so sa)"
  unfolding commit_hour_def steps_1_to_4_def
  by (intro step_pct_ok step_idle_ok soc_ok_enforce_import_cap soc_ok_enforce_export_cap
      soc_ok_step_arbi_from_grid soc_ok_step_arbi_to_grid soc_ok_step_deficit soc_ok_step_surplus
      init_hour_ok assms)

lemma commit_loop_ok:
  "0 \<le> so \<Longrightarrow> so \<le> emax_oze P \<Longrightarrow> 0 \<le> sa \<Longrightarrow> sa \<le> emax_arbi P \<Longrightarrow>
   s \<in> set (commit_loop P so sa hs) \<Longrightarrow> snap_ok P s"
proof (induction hs arbitrary: so sa)
  case Nil
  then show ?case by simp
next
  case (Cons h hs)
  have ok: "soc_ok P (commit_hour P h so sa) \<and> snap_ok P (commit_hour P h so sa)"
    using Cons.prems by (intro commit_hour_ok) auto
  from Cons.prems(5) have "s = commit_hour P h so sa \<or>
     s \<in> set (commit_loop P (soc_oze (commit_hour P h so sa)) (soc_arbi (commit_hour P h so sa)) hs)"
    by (simp add: Let_def)
  then show ?case
  proof
    assume "s = commit_hour P h so sa"
    with ok show ?thesis by simp
  next
    assume "s \<in> set (commit_loop P (soc_oze (commit_hour P h so sa)) (soc_arbi (commit_hour P h so sa)) hs)"
    then show ?thesis
      using ok Cons.IH[of "soc_oze (commit_hour P h so sa)" "soc_arbi (commit_hour P h so sa)"]
      by (simp add: soc_ok_def)
  qed
qed

lemma length_commit_loop: "length (commit_loop P so sa hs) = length hs"
  by (induction hs arbitrary: so sa) (simp_all add: Let_def)

lemma flows_commit_run:
  "r \<in> set (commit_run P so sa hs) \<Longrightarrow> flows r \<in> set (commit_loop P so sa hs)"
  by (auto simp: commit_run_def kpi_row_def Let_def set_zip length_commit_loop)

lemma ac4_surplus_to_oze: "ac4 (surplus_to_oze P s) = ac4 s"
  by (simp add: ac4_def surplus_to_oze_def Let_def)

lemma ac4_surplus_to_arbi: "ac4 (surplus_to_arbi P h s) = ac4 s"
  by (simp add: ac4_def surplus_to_arbi_def Let_def)

lemma ac4_surplus_to_export:
  "ac4 (surplus_to_export s) =
     (if surplus_net_mwh s > EPS then export_from_surplus_ac_mwh s + surplus_net_mwh s
      else export_from_surplus_ac_mwh s,
      export_from_arbi_ac_mwh s, import_for_load_ac_mwh s, import_for_arbi_ac_mwh s)"
  by (simp add: ac4_def surplus_to_export_def Let_def)

lemma ac4_step_surplus:
  "ac4 (step_surplus P h s) =
     (fst (ac4 (step_surplus P h s)), export_from_arbi_ac_mwh s, import_for_load_ac_mwh s, import_for_arbi_ac_mwh s)"
  "export_from_surplus_ac_mwh s = 0 \<Longrightarrow> tiny_free (fst (ac4 (step_surplus P h s)))"
proof -
  have a: "ac4 (surplus_to_arbi P h (surplus_to_oze P s)) = ac4 s"
    by (simp add: ac4_surplus_to_arbi ac4_surplus_to_oze)
  then have b: "export_from_surplus_ac_mwh (surplus_to_arbi P h (surplus_to_oze P s)) = export_from_surplus_ac_mwh s"
    "export_from_arbi_ac_mwh (surplus_to_arbi P h (surplus_to_oze P s)) = export_from_arbi_ac_mwh s"
    "import_for_load_ac_mwh (surplus_to_arbi P h (surplus_to_oze P s)) = import_for_load_ac_mwh s"
    "import_for_arbi_ac_mwh (surplus_to_arbi P h (surplus_to_oze P s)) = import_for_arbi_ac_mwh s"
    by (simp_all add: ac4_def)
  show "ac4 (step_surplus P h s) =
     (fst (ac4 (step_surplus P h s)), export_from_arbi_ac_mwh s, import_for_load_ac_mwh s, import_for_arbi_ac_mwh s)"
    by (simp add: step_surplus_def ac4_surplus_to_export b) (simp add: ac4_def)
  show "export_from_surplus_ac_mwh s = 0 \<Longrightarrow> tiny_free (fst (ac4 (step_surplus P h s)))"
    by (simp add: step_surplus_def ac4_surplus_to_export b tiny_free_def) (simp add: ac4_def)
qed

lemma ac4_deficit_from_oze: "ac4 (snd (deficit_from_oze P ds)) = ac4 (snd ds)"
  by (simp add: ac4_def deficit_from_oze_def Let_def)

lemma ac4_deficit_from_arbi: "ac4 (snd (deficit_from_arbi P ds)) = ac4 (snd ds)"
  by (simp add: ac4_def deficit_from_arbi_def Let_def)

lemma ac4_deficit_to_import:
  "ac4 (deficit_to_import ds) =
     (export_from_surplus_ac_mwh (snd ds), export_from_arbi_ac_mwh (snd ds),
      (if fst ds > EPS then import_for_load_ac_mwh (snd ds) + fst ds else import_for_load_ac_mwh (snd ds)),
      import_for_arbi_ac_mwh (snd ds))"
  by (simp add: ac4_def deficit_to_import_def Let_def)

lemma ac4_step_deficit:
  "export_from_surplus_ac_mwh (step_deficit P h s) = export_from_surplus_ac_mwh s"
  "export_from_arbi_ac_mwh (step_deficit P h s) = export_from_arbi_ac_mwh s"
  "import_for_arbi_ac_mwh (step_deficit P h s) = import_for_arbi_ac_mwh s"
  "import_for_load_ac_mwh s = 0 \<Longrightarrow> tiny_free (import_for_load_ac_mwh (step_deficit P h s))"
proof -
  define ds where "ds = deficit_from_arbi P (deficit_from_oze P (max 0 (deficit_net_mwh h), s))"
  have a: "ac4 (snd ds) = ac4 s"
    by (simp add: ds_def ac4_deficit_from_arbi ac4_deficit_from_oze)
  then have b: "export_from_surplus_ac_mwh (snd ds) = export_from_surplus_ac_mwh s"
    "export_from_arbi_ac_mwh (snd ds) = export_from_arbi_ac_mwh s"
    "import_for_load_ac_mwh (snd ds) = import_for_load_ac_mwh s"
    "import_for_arbi_ac_mwh (snd ds) = import_for_arbi_ac_mwh s"
    by (simp_all add: ac4_def)
  have c: "step_deficit P h s = (if max 0 (deficit_net_mwh h) > EPS then deficit_to_import ds else s)"
    by (simp add: step_deficit_def ds_def Let_def)
  have d: "ac4 (deficit_to_import ds) =
     (export_from_surplus_ac_mwh s, export_from_arbi_ac_mwh s,
      (if fst ds > EPS then import_for_load_ac_mwh s + fst ds else import_for_load_ac_mwh s),
      import_for_arbi_ac_mwh s)"
    by (simp add: ac4_deficit_to_import b)
  show "export_from_surplus_ac_mwh (step_deficit P h s) = export_from_surplus_ac_mwh s"
    using d by (simp add: c ac4_def)
  show "export_from_arbi_ac_mwh (step_deficit P h s) = export_from_arbi_ac_mwh s"
    using d by (simp add: c ac4_def)
  show "import_for_arbi_ac_mwh (step_deficit P h s) = import_for_arbi_ac_mwh s"
    using d by (simp add: c ac4_def)
  show "import_for_load_ac_mwh s = 0 \<Longrightarrow> tiny_free (import_for_load_ac_mwh (step_deficit P h s))"
    using d by (auto simp: c ac4_def tiny_free_def)
qed

lemma ac4_step_arbi_to_grid:
  "export_from_surplus_ac_mwh (step_arbi_to_grid P h s) = export_from_surplus_ac_mwh s"
  "import_for_load_ac_mwh (step_arbi_to_grid P h s) = import_for_load_ac_mwh s"
  "import_for_arbi_ac_mwh (step_arbi_to_grid P h s) = import_for_arbi_ac_mwh s"
  "export_from_arbi_ac_mwh s = 0 \<Longrightarrow> tiny_free (export_from_arbi_ac_mwh (step_arbi_to_grid P h s))"
  by (simp_all add: step_arbi_to_grid_def Let_def tiny_free_def)

lemma ac4_step_arbi_from_grid:
  "export_from_surplus_ac_mwh (step_arbi_from_grid P h s) = export_from_surplus_ac_mwh s"
  "import_for_load_ac_mwh (step_arbi_from_grid P h s) = import_for_load_ac_mwh s"
  "export_from_arbi_ac_mwh (step_arbi_from_grid P h s) = export_from_arbi_ac_mwh s"
  by (simp_all add: step_arbi_from_grid_def Let_def)

lemma ac_needed_gt:
  assumes "EPS < n" "eta \<le> 1"
  shows "EPS < (if eta > EPS then n / eta else n)"
proof (cases "eta > EPS")
  case True
  then have "0 < eta" using EPS_pos by simp
  then have "n \<le> n / eta" using assms EPS_pos by (simp add: pos_le_divide_eq mult_left_le)
  then show ?thesis using assms True by simp
next
  case False
  then show ?thesis using assms by simp
qed

lemma tiny_step_arbi_from_grid:
  assumes "import_for_arbi_ac_mwh s = 0" "eta_ch P \<le> 1"
  shows "tiny_free (import_for_arbi_ac_mwh (step_arbi_from_grid P h s))"
proof -
  define n where "n = bmin (min (prop_arbi_ch_from_grid_ac_mwh h * eta_ch P) (max 0 (emax_arbi P - soc_arbi s))) (ch_net_budget s)"
  show ?thesis
  proof (cases "EPS < n")
    case True
    have "import_for_arbi_ac_mwh (step_arbi_from_grid P h s) = (if eta_ch P > EPS then n / eta_ch P else n)"
      using True assms(1) by (simp add: step_arbi_from_grid_def Let_def n_def)
    then show ?thesis using ac_needed_gt[OF True assms(2)] by (simp add: tiny_free_def)
  next
    case False
    then have "import_for_arbi_ac_mwh (step_arbi_from_grid P h s) = 0"
      using assms(1) by (simp add: step_arbi_from_grid_def Let_def n_def)
    then show ?thesis by (simp add: tiny_free_def)
  qed
qed

lemma tiny_steps_1_to_4:
  "tiny_free (export_from_surplus_ac_mwh (steps_1_to_4 P h so sa))"
  "tiny_free (export_from_arbi_ac_mwh (steps_1_to_4 P h so sa))"
  "tiny_free (import_for_load_ac_mwh (steps_1_to_4 P h so sa))"
  "eta_ch P \<le> 1 \<Longrightarrow> tiny_free (import_for_arbi_ac_mwh (steps_1_to_4 P h so sa))"
proof -
  define s0 where "s0 = init_hour h so sa"
  define s1 where "s1 = step_surplus P h s0"
  define s2 where "s2 = step_deficit P h s1"
  define s3 where "s3 = step_arbi_to_grid P h s2"
  have e: "steps_1_to_4 P h so sa = step_arbi_from_grid P h s3"
    by (simp add: steps_1_to_4_def s0_def s1_def s2_def s3_def)
  have i: "export_from_surplus_ac_mwh s0 = 0" "export_from_arbi_ac_mwh s0 = 0"
    "import_for_load_ac_mwh s0 = 0" "import_for_arbi_ac_mwh s0 = 0"
    by (simp_all add: init_hour_def s0_def)
  have s1f: "ac4 s1 = (fst (ac4 s1), 0, 0, 0)" and s1t: "tiny_free (fst (ac4 s1))"
    using ac4_step_surplus[where P=P and h=h and s=s0] i by (simp_all add: s1_def)
  have s1v: "tiny_free (export_from_surplus_ac_mwh s1)" "export_from_arbi_ac_mwh s1 = 0"
    "import_for_load_ac_mwh s1 = 0" "import_for_arbi_ac_mwh s1 = 0"
    using s1f s1t by (simp_all add: ac4_def)
  have s2v: "tiny_free (export_from_surplus_ac_mwh s2)" "export_from_arbi_ac_mwh s2 = 0"
    "tiny_free (import_for_load_ac_mwh s2)" "import_for_arbi_ac_mwh s2 = 0"
    using s1v by (simp_all add: s2_def ac4_step_deficit)
  have s3v: "tiny_free (export_from_surplus_ac_mwh s3)" "tiny_free (export_from_arbi_ac_mwh s3)"
    "tiny_free (import_for_load_ac_mwh s3)" "import_for_arbi_ac_mwh s3 = 0"
    using s2v by (simp_all add: s3_def ac4_step_arbi_to_grid)
  show "tiny_free (export_from_surplus_ac_mwh (steps_1_to_4 P h so sa))"
    "tiny_free (export_from_arbi_ac_mwh (steps_1_to_4 P h so sa))"
    "tiny_free (import_for_load_ac_mwh (steps_1_to_4 P h so sa))"
    using s3v by (simp_all add: e ac4_step_arbi_from_grid)
  show "eta_ch P \<le> 1 \<Longrightarrow> tiny_free (import_for_arbi_ac_mwh (steps_1_to_4 P h so sa))"
    using s3v by (simp add: e tiny_step_arbi_from_grid)
qed

lemma cap_cut_arith:
  fixes a b c :: real
  assumes "a = 0 \<or> EPS < a" "b = 0 \<or> EPS < b" "0 \<le> c" "c + EPS < b + a"
  shows "(if b + a - c - min a (b + a - c) > EPS \<and> min b (b + a - c - min a (b + a - c)) > EPS
          then b - min b (b + a - c - min a (b + a - c)) else b)
         + (if min a (b + a - c) > EPS then a - min a (b + a - c) else a) \<le> c + EPS"
  using assms EPS_pos by (auto simp: min_def)

lemma cut_export_arbi_fields:
  "export_from_surplus_ac_mwh (cut_export_arbi P h x s) = export_from_surplus_ac_mwh s"
  "export_from_arbi_ac_mwh (cut_export_arbi P h x s) =
     (if x > EPS then export_from_arbi_ac_mwh s - x else export_from_arbi_ac_mwh s)"
  by (simp_all add: cut_export_arbi_def Let_def)

lemma cut_export_surplus_fields:
  "export_from_arbi_ac_mwh (cut_export_surplus x s) = export_from_arbi_ac_mwh s"
  "export_from_surplus_ac_mwh (cut_export_surplus x s) =
     (if x > EPS \<and> min (export_from_surplus_ac_mwh s) x > EPS
      then export_from_surplus_ac_mwh s - min (export_from_surplus_ac_mwh s) x
      else export_from_surplus_ac_mwh s)"
  by (simp_all add: cut_export_surplus_def Let_def)

lemma enforce_export_bound:
  assumes "tiny_free (export_from_surplus_ac_mwh s)" "tiny_free (export_from_arbi_ac_mwh s)"
    and "cap_grid_export_ac_mwh h = Finite c" "0 \<le> c"
  shows "export_from_surplus_ac_mwh (enforce_export_cap P h s) + export_from_arbi_ac_mwh (enforce_export_cap P h s) \<le> c + EPS"
proof (cases "c + EPS < export_from_surplus_ac_mwh s + export_from_arbi_ac_mwh s")
  case True
  define a where "a = export_from_arbi_ac_mwh s"
  define b where "b = export_from_surplus_ac_mwh s"
  have e1: "export_from_surplus_ac_mwh (enforce_export_cap P h s) =
      (if b + a - c - min a (b + a - c) > EPS \<and> min b (b + a - c - min a (b + a - c)) > EPS
       then b - min b (b + a - c - min a (b + a - c)) else b)"
    using True assms(3) by (simp add: enforce_export_cap_def Let_def cut_export_arbi_fields cut_export_surplus_fields a_def b_def)
  have e2: "export_from_arbi_ac_mwh (enforce_export_cap P h s) =
      (if min a (b + a - c) > EPS then a - min a (b + a - c) else a)"
    using True assms(3) by (simp add: enforce_export_cap_def Let_def cut_export_arbi_fields cut_export_surplus_fields a_def b_def)
  have "a = 0 \<or> EPS < a" "b = 0 \<or> EPS < b" "c + EPS < b + a"
    using assms(1,2) True by (simp_all add: tiny_free_def a_def b_def)
  from cap_cut_arith[OF this(1) this(2) assms(4) this(3)] show ?thesis
    unfolding e1 e2 .
next
  case False
  then show ?thesis using assms(3) by (simp add: enforce_export_cap_def Let_def)
qed

lemma cut_import_arbi_fields:
  "import_for_load_ac_mwh (cut_import_arbi P h x s) = import_for_load_ac_mwh s"
  "import_for_arbi_ac_mwh (cut_import_arbi P h x s) =
     (if x > EPS then import_for_arbi_ac_mwh s - x else import_for_arbi_ac_mwh s)"
  by (simp_all add: cut_import_arbi_def Let_def)

lemma cut_import_load_fields:
  "import_for_arbi_ac_mwh (cut_import_load x s) = import_for_arbi_ac_mwh s"
  "import_for_load_ac_mwh (cut_import_load x s) =
     (if x > EPS \<and> min (import_for_load_ac_mwh s) x > EPS
      then import_for_load_ac_mwh s - min (import_for_load_ac_mwh s) x
      else import_for_load_ac_mwh s)"
  by (simp_all add: cut_import_load_def Let_def)

lemma enforce_import_bound:
  assumes "tiny_free (import_for_load_ac_mwh s)" "tiny_free (import_for_arbi_ac_mwh s)"
    and "cap_grid_import_ac_mwh h = Finite c" "0 \<le> c"
  shows "import_for_load_ac_mwh (enforce_import_cap P h s) + import_for_arbi_ac_mwh (enforce_import_cap P h s) \<le> c + EPS"
proof (cases "c + EPS < import_for_load_ac_mwh s + import_for_arbi_ac_mwh s")
  case True
  define a where "a = import_for_arbi_ac_mwh s"
  define b where "b = import_for_load_ac_mwh s"
  have e1: "import_for_load_ac_mwh (enforce_import_cap P h s) =
      (if b + a - c - min a (b + a - c) > EPS \<and> min b (b + a - c - min a (b + a - c)) > EPS
       then b - min b (b + a - c - min a (b + a - c)) else b)"
    using True assms(3) by (simp add: enforce_import_cap_def Let_def cut_import_arbi_fields cut_import_load_fields a_def b_def)
  have e2: "import_for_arbi_ac_mwh (enforce_import_cap P h s) =
      (if min a (b + a - c) > EPS then a - min a (b + a - c) else a)"
    using True assms(3) by (simp add: enforce_import_cap_def Let_def cut_import_arbi_fields cut_import_load_fields a_def b_def)
  have "a = 0 \<or> EPS < a" "b = 0 \<or> EPS < b" "c + EPS < b + a"
    using assms(1,2) True by (simp_all add: tiny_free_def a_def b_def)
  from cap_cut_arith[OF this(1) this(2) assms(4) this(3)] show ?thesis
    unfolding e1 e2 .
next
  case False
  then show ?thesis using assms(3) by (simp add: enforce_import_cap_def Let_def)
qed

lemma export_fields_cut_import:
  "export_from_surplus_ac_mwh (cut_import_load y (cut_import_arbi P h x s)) = export_from_surplus_ac_mwh s"
  "export_from_arbi_ac_mwh (cut_import_load y (cut_import_arbi P h x s)) = export_from_arbi_ac_mwh s"
  by (simp_all add: cut_import_arbi_def cut_import_load_def Let_def)

lemma enforce_import_frame:
  "export_from_surplus_ac_mwh (enforce_import_cap P h s) = export_from_surplus_ac_mwh s"
  "export_from_arbi_ac_mwh (enforce_import_cap P h s) = export_from_arbi_ac_mwh s"
  by (simp_all add: enforce_import_cap_def Let_def export_fields_cut_import split: flt.split)

lemma import_fields_cut_export:
  "import_for_load_ac_mwh (cut_export_surplus y (cut_export_arbi P h x s)) = import_for_load_ac_mwh s"
  "import_for_arbi_ac_mwh (cut_export_surplus y (cut_export_arbi P h x s)) = import_for_arbi_ac_mwh s"
  by (simp_all add: cut_export_arbi_def cut_export_surplus_def Let_def)

lemma enforce_export_frame:
  "import_for_load_ac_mwh (enforce_export_cap P h s) = import_for_load_ac_mwh s"
  "import_for_arbi_ac_mwh (enforce_export_cap P h s) = import_for_arbi_ac_mwh s"
  by (simp_all add: enforce_export_cap_def Let_def import_fields_cut_export split: flt.split)

lemma idle_pct_frame:
  "export_from_surplus_ac_mwh (step_pct P (step_idle P s)) = export_from_surplus_ac_mwh s"
  "export_from_arbi_ac_mwh (step_pct P (step_idle P s)) = export_from_arbi_ac_mwh s"
  "import_for_load_ac_mwh (step_pct P (step_idle P s)) = import_for_load_ac_mwh s"
  "import_for_arbi_ac_mwh (step_pct P (step_idle P s)) = import_for_arbi_ac_mwh s"
  by (simp_all add: step_pct_def step_idle_def Let_def)

lemma commit_hour_caps:
  "cap_grid_export_ac_mwh h = Finite ce \<Longrightarrow> 0 \<le> ce \<Longrightarrow>
     export_from_surplus_ac_mwh (commit_hour P h so sa) + export_from_arbi_ac_mwh (commit_hour P h so sa) \<le> ce + EPS"
  "eta_ch P \<le> 1 \<Longrightarrow> cap_grid_import_ac_mwh h = Finite ci \<Longrightarrow> 0 \<le> ci \<Longrightarrow>
     import_for_load_ac_mwh (commit_hour P h so sa) + import_for_arbi_ac_mwh (commit_hour P h so sa) \<le> ci + EPS"
proof -
  show "cap_grid_export_ac_mwh h = Finite ce \<Longrightarrow> 0 \<le> ce \<Longrightarrow>
     export_from_surplus_ac_mwh (commit_hour P h so sa) + export_from_arbi_ac_mwh (commit_hour P h so sa) \<le> ce + EPS"
    using enforce_export_bound[where s="steps_1_to_4 P h so sa" and h=h and c=ce and P=P]
      tiny_steps_1_to_4(1)[of P h so sa] tiny_steps_1_to_4(2)[of P h so sa]
    by (simp add: commit_hour_def idle_pct_frame enforce_import_frame)
  show "eta_ch P \<le> 1 \<Longrightarrow> cap_grid_import_ac_mwh h = Finite ci \<Longrightarrow> 0 \<le> ci \<Longrightarrow>
     import_for_load_ac_mwh (commit_hour P h so sa) + import_for_arbi_ac_mwh (commit_hour P h so sa) \<le> ci + EPS"
    using enforce_import_bound[where s="enforce_export_cap P h (steps_1_to_4 P h so sa)" and h=h and c=ci and P=P]
      tiny_steps_1_to_4(3)[of P h so sa] tiny_steps_1_to_4(4)[of P h so sa]
    by (simp add: commit_hour_def idle_pct_frame enforce_export_frame)
qed

lemmas commit_defs = commit_run_def kpi_row_def commit_hour_def steps_1_to_4_def init_hour_def
  step_surplus_def surplus_to_oze_def surplus_to_arbi_def surplus_to_export_def
  step_deficit_def deficit_from_oze_def deficit_from_arbi_def deficit_to_import_def
  step_arbi_to_grid_def step_arbi_from_grid_def enforce_export_cap_def cut_export_arbi_def
  cut_export_surplus_def enforce_import_cap_def cut_import_arbi_def cut_import_load_def
  step_idle_def step_pct_def

lemma nth_commit_run:
  "i < length hs \<Longrightarrow> commit_run P so sa hs ! i = kpi_row (hs ! i) (commit_loop P so sa hs ! i)"
  by (simp add: commit_run_def length_commit_loop)

lemma length_commit_run: "length (commit_run P so sa hs) = length hs"
  by (simp add: commit_run_def length_commit_loop)

lemma flows_kpi_row: "flows (kpi_row h s) = s"
  by (simp add: kpi_row_def Let_def)

lemma nth_commit_loop:
  "i < length hs \<Longrightarrow> \<exists>so' sa'. commit_loop P so sa hs ! i = commit_hour P (hs ! i) so' sa'"
proof (induction hs arbitrary: i so sa)
  case Nil
  then show ?case by simp
next
  case (Cons h hs)
  show ?case
  proof (cases i)
    case 0
    then show ?thesis by (auto simp: Let_def)
  next
    case (Suc j)
    with Cons.prems have "j < length hs" by simp
    from Cons.IH[OF this] show ?thesis using Suc by (simp add: Let_def)
  qed
qed

lemma nth_commit_loop_ok:
  assumes "0 \<le> so" "so \<le> emax_oze P" "0 \<le> sa" "sa \<le> emax_arbi P" "i < length hs"
  shows "snap_ok P (commit_loop P so sa hs ! i)"
  using commit_loop_ok[OF assms(1-4), of "commit_loop P so sa hs ! i" hs] assms(5)
  by (simp add: length_commit_loop)

text \<open>
  Claim C1. When the commit stage starts with both SOC values inside their capacities
  (\<open>0 \<le> soc0_oze \<le> emax_oze\<close>, \<open>0 \<le> soc0_arbi \<le> emax_arbi\<close>), every SOC snapshot
  it emits for every hour, before and after idle self-discharge and for both pools, lies
  between 0 and the capacity of its pool. Every assignment to a SOC in the loop is clamped
  with \<open>min(emax, .)\<close> or \<open>max(0.0, .)\<close>, so the bound needs no assumption on the caps, the
  efficiencies or \<open>lambda_h\<close>; it holds a fortiori for non-negative caps, efficiencies in
  \<open>(0,1]\<close> and \<open>lambda_h\<close> in \<open>[0,1)\<close>, and in the hours where the grid-cap enforcement
  reverts an ARBI charge or discharge.
\<close>

theorem commit_soc_within_capacity:
  assumes "0 \<le> soc0_oze" "soc0_oze \<le> emax_oze P" "0 \<le> soc0_arbi" "soc0_arbi \<le> emax_arbi P"
    and "i < length hs"
  shows "0 \<le> soc_oze_before_idle_mwh (flows (commit_run P soc0_oze soc0_arbi hs ! i)) \<and>
         soc_oze_before_idle_mwh (flows (commit_run P soc0_oze soc0_arbi hs ! i)) \<le> emax_oze P \<and>
         0 \<le> soc_oze_after_idle_mwh (flows (commit_run P soc0_oze soc0_arbi hs ! i)) \<and>
         soc_oze_after_idle_mwh (flows (commit_run P soc0_oze soc0_arbi hs ! i)) \<le> emax_oze P \<and>
         0 \<le> soc_arbi_before_idle_mwh (flows (commit_run P soc0_oze soc0_arbi hs ! i)) \<and>
         soc_arbi_before_idle_mwh (flows (commit_run P soc0_oze soc0_arbi hs ! i)) \<le> emax_arbi P \<and>
         0 \<le> soc_arbi_after_idle_mwh (flows (commit_run P soc0_oze soc0_arbi hs ! i)) \<and>
         soc_arbi_after_idle_mwh (flows (commit_run P soc0_oze soc0_arbi hs ! i)) \<le> emax_arbi P"
  using nth_commit_loop_ok[OF assms]
  by (simp add: nth_commit_run[OF assms(5)] flows_kpi_row snap_ok_def)

text \<open>
  The sample hour: both pools full, surplus 5 MWh, an ARBI discharge proposal of 0.5 MWh
  and an export cap of 1 MWh. The cap enforcement takes the ARBI export back and the ARBI
  SOC returns to its capacity 1.
\<close>

theorem commit_soc_within_capacity_witness:
  "(0::real) \<le> 1 \<and> 1 \<le> emax_oze ex_params \<and> (0::real) \<le> 1 \<and> 1 \<le> emax_arbi ex_params \<and>
   0 < length [ex_hour] \<and>
   soc_arbi_before_idle_mwh (flows (commit_run ex_params 1 1 [ex_hour] ! 0)) = 1 \<and>
   soc_arbi_before_idle_mwh (flows (commit_run ex_params 1 1 [ex_hour] ! 0)) \<le> emax_arbi ex_params"
  using commit_soc_within_capacity[of 1 ex_params 1 0 "[ex_hour]"]
  by (simp add: commit_defs ex_params_def ex_hour_def EPS_def Let_def)

lemma cut_export_arbi_soc:
  "soc_arbi (cut_export_arbi P h x s) =
     (if x > EPS then min (emax_arbi P) (soc_arbi s + (if eta_dis P > EPS then x / eta_dis P else x))
      else soc_arbi s)"
  "dis_net_budget (cut_export_arbi P h x s) =
     (if x > EPS
      then (case cap_bess_discharge_net_mwh h of
              Finite c \<Rightarrow> brestore (dis_net_budget s) (if eta_dis P > EPS then x / eta_dis P else x) c
            | _ \<Rightarrow> dis_net_budget s)
      else dis_net_budget s)"
  by (simp_all add: cut_export_arbi_def Let_def)

lemma cut_export_surplus_soc:
  "soc_arbi (cut_export_surplus x s) = soc_arbi s"
  "dis_net_budget (cut_export_surplus x s) = dis_net_budget s"
  by (simp_all add: cut_export_surplus_def Let_def)

lemma cut_import_arbi_soc:
  "soc_arbi (cut_import_arbi P h x s) =
     (if x > EPS \<and> x * eta_ch P > EPS then max 0 (soc_arbi s - x * eta_ch P) else soc_arbi s)"
  "ch_net_budget (cut_import_arbi P h x s) =
     (if x > EPS \<and> x * eta_ch P > EPS
      then (case cap_bess_charge_net_mwh h of
              Finite c \<Rightarrow> brestore (ch_net_budget s) (x * eta_ch P) c
            | _ \<Rightarrow> ch_net_budget s)
      else ch_net_budget s)"
  by (simp_all add: cut_import_arbi_def Let_def)

lemma cut_import_load_soc:
  "soc_arbi (cut_import_load x s) = soc_arbi s"
  "ch_net_budget (cut_import_load x s) = ch_net_budget s"
  by (simp_all add: cut_import_load_def Let_def)

text \<open>What one enforcement does to the two flows it may cut, the ARBI SOC and the budget.\<close>

lemma enforce_export_cases:
  "(enforce_export_cap P h s = s) \<or>
   (\<exists>c. cap_grid_export_ac_mwh h = Finite c \<and>
     c + EPS < export_from_surplus_ac_mwh s + export_from_arbi_ac_mwh s \<and>
     enforce_export_cap P h s =
       (cut_export_surplus
          (export_from_surplus_ac_mwh s + export_from_arbi_ac_mwh s - c
             - min (export_from_arbi_ac_mwh s) (export_from_surplus_ac_mwh s + export_from_arbi_ac_mwh s - c))
          (cut_export_arbi P h
             (min (export_from_arbi_ac_mwh s) (export_from_surplus_ac_mwh s + export_from_arbi_ac_mwh s - c)) s))
       \<lparr> bind_export_cap := True \<rparr>)"
  by (cases "cap_grid_export_ac_mwh h") (simp_all add: enforce_export_cap_def Let_def)

lemma enforce_import_cases:
  "(enforce_import_cap P h s = s) \<or>
   (\<exists>c. cap_grid_import_ac_mwh h = Finite c \<and>
     c + EPS < import_for_load_ac_mwh s + import_for_arbi_ac_mwh s \<and>
     enforce_import_cap P h s =
       (cut_import_load
          (import_for_load_ac_mwh s + import_for_arbi_ac_mwh s - c
             - min (import_for_arbi_ac_mwh s) (import_for_load_ac_mwh s + import_for_arbi_ac_mwh s - c))
          (cut_import_arbi P h
             (min (import_for_arbi_ac_mwh s) (import_for_load_ac_mwh s + import_for_arbi_ac_mwh s - c)) s))
       \<lparr> bind_import_cap := True \<rparr>)"
  by (cases "cap_grid_import_ac_mwh h") (simp_all add: enforce_import_cap_def Let_def)

lemma enforce_export_values:
  assumes "cap_grid_export_ac_mwh h = Finite c"
    and "c + EPS < export_from_surplus_ac_mwh s + export_from_arbi_ac_mwh s"
    and "a = export_from_arbi_ac_mwh s" "b = export_from_surplus_ac_mwh s"
    and "x = min a (b + a - c)"
  shows "export_from_surplus_ac_mwh (enforce_export_cap P h s) =
           (if b + a - c - x > EPS \<and> min b (b + a - c - x) > EPS then b - min b (b + a - c - x) else b)"
    and "export_from_arbi_ac_mwh (enforce_export_cap P h s) = (if x > EPS then a - x else a)"
    and "soc_arbi (enforce_export_cap P h s) = soc_arbi (cut_export_arbi P h x s)"
    and "dis_net_budget (enforce_export_cap P h s) = dis_net_budget (cut_export_arbi P h x s)"
  using assms(1,2)
  by (simp_all add: enforce_export_cap_def Let_def cut_export_arbi_fields cut_export_surplus_fields
      cut_export_surplus_soc assms(3,4,5))

lemma enforce_import_values:
  assumes "cap_grid_import_ac_mwh h = Finite c"
    and "c + EPS < import_for_load_ac_mwh s + import_for_arbi_ac_mwh s"
    and "a = import_for_arbi_ac_mwh s" "b = import_for_load_ac_mwh s"
    and "x = min a (b + a - c)"
  shows "import_for_load_ac_mwh (enforce_import_cap P h s) =
           (if b + a - c - x > EPS \<and> min b (b + a - c - x) > EPS then b - min b (b + a - c - x) else b)"
    and "import_for_arbi_ac_mwh (enforce_import_cap P h s) = (if x > EPS then a - x else a)"
    and "soc_arbi (enforce_import_cap P h s) = soc_arbi (cut_import_arbi P h x s)"
    and "ch_net_budget (enforce_import_cap P h s) = ch_net_budget (cut_import_arbi P h x s)"
  using assms(1,2)
  by (simp_all add: enforce_import_cap_def Let_def cut_import_arbi_fields cut_import_load_fields
      cut_import_load_soc assms(3,4,5))

lemma enforce_export_unbound:
  "\<not> (\<exists>c. cap_grid_export_ac_mwh h = Finite c \<and>
          c + EPS < export_from_surplus_ac_mwh s + export_from_arbi_ac_mwh s)
   \<Longrightarrow> enforce_export_cap P h s = s"
  by (cases "cap_grid_export_ac_mwh h") (simp_all add: enforce_export_cap_def Let_def)

lemma enforce_import_unbound:
  "\<not> (\<exists>c. cap_grid_import_ac_mwh h = Finite c \<and>
          c + EPS < import_for_load_ac_mwh s + import_for_arbi_ac_mwh s)
   \<Longrightarrow> enforce_import_cap P h s = s"
  by (cases "cap_grid_import_ac_mwh h") (simp_all add: enforce_import_cap_def Let_def)

lemma priority_arith:
  fixes a b c x :: real
  assumes "a = 0 \<or> EPS < a" "x = min a (b + a - c)"
    and "(if b + a - c - x > EPS \<and> min b (b + a - c - x) > EPS then b - min b (b + a - c - x) else b) < b"
  shows "(if x > EPS then a - x else a) = 0"
  using assms EPS_pos by (auto simp: min_def split: if_splits)

lemma revert_arith:
  fixes a x :: real
  assumes "(if x > EPS then a - x else a) < a"
  shows "x > EPS \<and> x = a - (if x > EPS then a - x else a)"
  using assms by (auto split: if_splits)

lemma export_priority:
  assumes "tiny_free (export_from_arbi_ac_mwh s)"
    and "export_from_surplus_ac_mwh (enforce_export_cap P h s) < export_from_surplus_ac_mwh s"
  shows "export_from_arbi_ac_mwh (enforce_export_cap P h s) = 0"
proof (cases "\<exists>c. cap_grid_export_ac_mwh h = Finite c \<and>
          c + EPS < export_from_surplus_ac_mwh s + export_from_arbi_ac_mwh s")
  case True
  then obtain c where c: "cap_grid_export_ac_mwh h = Finite c"
    "c + EPS < export_from_surplus_ac_mwh s + export_from_arbi_ac_mwh s" by blast
  note v = enforce_export_values[OF c refl refl refl, of P]
  show ?thesis
    using priority_arith[OF _ refl, of "export_from_arbi_ac_mwh s" "export_from_surplus_ac_mwh s" c]
      assms unfolding v(1) v(2) by (simp add: tiny_free_def)
next
  case False
  from enforce_export_unbound[OF this] assms(2) show ?thesis by simp
qed

lemma import_priority:
  assumes "tiny_free (import_for_arbi_ac_mwh s)"
    and "import_for_load_ac_mwh (enforce_import_cap P h s) < import_for_load_ac_mwh s"
  shows "import_for_arbi_ac_mwh (enforce_import_cap P h s) = 0"
proof (cases "\<exists>c. cap_grid_import_ac_mwh h = Finite c \<and>
          c + EPS < import_for_load_ac_mwh s + import_for_arbi_ac_mwh s")
  case True
  then obtain c where c: "cap_grid_import_ac_mwh h = Finite c"
    "c + EPS < import_for_load_ac_mwh s + import_for_arbi_ac_mwh s" by blast
  note v = enforce_import_values[OF c refl refl refl, of P]
  show ?thesis
    using priority_arith[OF _ refl, of "import_for_arbi_ac_mwh s" "import_for_load_ac_mwh s" c]
      assms unfolding v(1) v(2) by (simp add: tiny_free_def)
next
  case False
  from enforce_import_unbound[OF this] assms(2) show ?thesis by simp
qed

lemma export_revert:
  assumes "export_from_arbi_ac_mwh (enforce_export_cap P h s) < export_from_arbi_ac_mwh s"
    and "x = export_from_arbi_ac_mwh s - export_from_arbi_ac_mwh (enforce_export_cap P h s)"
    and "nr = (if eta_dis P > EPS then x / eta_dis P else x)"
  shows "soc_arbi (enforce_export_cap P h s) = min (emax_arbi P) (soc_arbi s + nr) \<and>
         dis_net_budget (enforce_export_cap P h s) =
           (case cap_bess_discharge_net_mwh h of
              Finite c \<Rightarrow> brestore (dis_net_budget s) nr c
            | _ \<Rightarrow> dis_net_budget s)"
proof (cases "\<exists>c. cap_grid_export_ac_mwh h = Finite c \<and>
          c + EPS < export_from_surplus_ac_mwh s + export_from_arbi_ac_mwh s")
  case True
  then obtain c where c: "cap_grid_export_ac_mwh h = Finite c"
    "c + EPS < export_from_surplus_ac_mwh s + export_from_arbi_ac_mwh s" by blast
  define y where "y = min (export_from_arbi_ac_mwh s)
      (export_from_surplus_ac_mwh s + export_from_arbi_ac_mwh s - c)"
  note v = enforce_export_values[OF c refl refl y_def, of P]
  have "y > EPS \<and> y = x"
    using revert_arith[of y "export_from_arbi_ac_mwh s"] assms(1,2) unfolding v(2) by simp
  then show ?thesis
    unfolding v(3) v(4) by (simp add: cut_export_arbi_soc assms(3) split: flt.split)
next
  case False
  from enforce_export_unbound[OF this] assms(1) show ?thesis by simp
qed

lemma import_revert:
  assumes "import_for_arbi_ac_mwh (enforce_import_cap P h s) < import_for_arbi_ac_mwh s"
    and "x = import_for_arbi_ac_mwh s - import_for_arbi_ac_mwh (enforce_import_cap P h s)"
    and "EPS < x * eta_ch P"
  shows "soc_arbi (enforce_import_cap P h s) = max 0 (soc_arbi s - x * eta_ch P) \<and>
         ch_net_budget (enforce_import_cap P h s) =
           (case cap_bess_charge_net_mwh h of
              Finite c \<Rightarrow> brestore (ch_net_budget s) (x * eta_ch P) c
            | _ \<Rightarrow> ch_net_budget s)"
proof (cases "\<exists>c. cap_grid_import_ac_mwh h = Finite c \<and>
          c + EPS < import_for_load_ac_mwh s + import_for_arbi_ac_mwh s")
  case True
  then obtain c where c: "cap_grid_import_ac_mwh h = Finite c"
    "c + EPS < import_for_load_ac_mwh s + import_for_arbi_ac_mwh s" by blast
  define y where "y = min (import_for_arbi_ac_mwh s)
      (import_for_load_ac_mwh s + import_for_arbi_ac_mwh s - c)"
  note v = enforce_import_values[OF c refl refl y_def, of P]
  have "y > EPS \<and> y = x"
    using revert_arith[of y "import_for_arbi_ac_mwh s"] assms(1,2) unfolding v(2) by simp
  then show ?thesis
    unfolding v(3) v(4) using assms(3) by (simp add: cut_import_arbi_soc)
next
  case False
  from enforce_import_unbound[OF this] assms(1) show ?thesis by simp
qed

lemma commit_hour_mechanism:
  assumes "eta_ch P \<le> 1"
    and "s0 = steps_1_to_4 P h so sa"
    and "s1 = enforce_export_cap P h s0"
    and "s2 = enforce_import_cap P h s1"
  shows "(export_from_surplus_ac_mwh s1 < export_from_surplus_ac_mwh s0 \<longrightarrow>
            export_from_arbi_ac_mwh s1 = 0) \<and>
         (import_for_load_ac_mwh s2 < import_for_load_ac_mwh s1 \<longrightarrow>
            import_for_arbi_ac_mwh s2 = 0) \<and>
         (export_from_arbi_ac_mwh s1 < export_from_arbi_ac_mwh s0 \<longrightarrow>
            soc_arbi s1 = min (emax_arbi P) (soc_arbi s0 +
              (if eta_dis P > EPS
               then (export_from_arbi_ac_mwh s0 - export_from_arbi_ac_mwh s1) / eta_dis P
               else export_from_arbi_ac_mwh s0 - export_from_arbi_ac_mwh s1)) \<and>
            dis_net_budget s1 =
              (case cap_bess_discharge_net_mwh h of
                 Finite c \<Rightarrow> brestore (dis_net_budget s0)
                   (if eta_dis P > EPS
                    then (export_from_arbi_ac_mwh s0 - export_from_arbi_ac_mwh s1) / eta_dis P
                    else export_from_arbi_ac_mwh s0 - export_from_arbi_ac_mwh s1) c
               | _ \<Rightarrow> dis_net_budget s0)) \<and>
         (import_for_arbi_ac_mwh s2 < import_for_arbi_ac_mwh s1 \<and>
          EPS < (import_for_arbi_ac_mwh s1 - import_for_arbi_ac_mwh s2) * eta_ch P \<longrightarrow>
            soc_arbi s2 = max 0 (soc_arbi s1 -
              (import_for_arbi_ac_mwh s1 - import_for_arbi_ac_mwh s2) * eta_ch P) \<and>
            ch_net_budget s2 =
              (case cap_bess_charge_net_mwh h of
                 Finite c \<Rightarrow> brestore (ch_net_budget s1)
                   ((import_for_arbi_ac_mwh s1 - import_for_arbi_ac_mwh s2) * eta_ch P) c
               | _ \<Rightarrow> ch_net_budget s1))"
proof -
  have t0: "tiny_free (export_from_arbi_ac_mwh s0)"
    by (simp add: assms(2) tiny_steps_1_to_4)
  have t1: "tiny_free (import_for_arbi_ac_mwh s1)"
    using assms(1) by (simp add: assms(2,3) enforce_export_frame tiny_steps_1_to_4)
  have a: "export_from_surplus_ac_mwh s1 < export_from_surplus_ac_mwh s0 \<longrightarrow>
            export_from_arbi_ac_mwh s1 = 0"
    using export_priority[OF t0, of P h] by (simp add: assms(3))
  have b: "import_for_load_ac_mwh s2 < import_for_load_ac_mwh s1 \<longrightarrow>
            import_for_arbi_ac_mwh s2 = 0"
    using import_priority[OF t1, of P h] by (simp add: assms(4))
  have c: "export_from_arbi_ac_mwh s1 < export_from_arbi_ac_mwh s0 \<longrightarrow>
            soc_arbi s1 = min (emax_arbi P) (soc_arbi s0 +
              (if eta_dis P > EPS
               then (export_from_arbi_ac_mwh s0 - export_from_arbi_ac_mwh s1) / eta_dis P
               else export_from_arbi_ac_mwh s0 - export_from_arbi_ac_mwh s1)) \<and>
            dis_net_budget s1 =
              (case cap_bess_discharge_net_mwh h of
                 Finite c \<Rightarrow> brestore (dis_net_budget s0)
                   (if eta_dis P > EPS
                    then (export_from_arbi_ac_mwh s0 - export_from_arbi_ac_mwh s1) / eta_dis P
                    else export_from_arbi_ac_mwh s0 - export_from_arbi_ac_mwh s1) c
               | _ \<Rightarrow> dis_net_budget s0)"
    using export_revert[OF _ refl refl, of P h s0] unfolding assms(3) by blast
  have d: "import_for_arbi_ac_mwh s2 < import_for_arbi_ac_mwh s1 \<and>
          EPS < (import_for_arbi_ac_mwh s1 - import_for_arbi_ac_mwh s2) * eta_ch P \<longrightarrow>
            soc_arbi s2 = max 0 (soc_arbi s1 -
              (import_for_arbi_ac_mwh s1 - import_for_arbi_ac_mwh s2) * eta_ch P) \<and>
            ch_net_budget s2 =
              (case cap_bess_charge_net_mwh h of
                 Finite c \<Rightarrow> brestore (ch_net_budget s1)
                   ((import_for_arbi_ac_mwh s1 - import_for_arbi_ac_mwh s2) * eta_ch P) c
               | _ \<Rightarrow> ch_net_budget s1)"
    using import_revert[OF _ refl, of P h s1] unfolding assms(4) by blast
  from a b c d show ?thesis by blast
qed

text \<open>
  Claim C2. In an hour whose grid caps are finite and non-negative, the AC flows the commit
  stage emits satisfy \<open>export_from_surplus + export_from_arbi \<le> cap_grid_export_ac + EPS\<close>
  and \<open>import_for_load + import_for_arbi \<le> cap_grid_import_ac + EPS\<close>. The enforcement
  cuts the ARBI side first: with \<open>s0\<close> the state of the hour before enforcement, \<open>s1\<close> after
  the export cap and \<open>s2\<close> after the import cap, the surplus export is reduced only when no
  ARBI export is left, the load import only when no ARBI import is left; a cut of the ARBI
  export by \<open>x\<close> gives \<open>x / eta_dis\<close> back to the ARBI SOC (clamped at \<open>emax_arbi\<close>) and
  to the discharge budget (clamped at the BESS cap), and a cut of the ARBI import by \<open>x\<close>
  takes \<open>x * eta_ch\<close> (when above \<open>EPS\<close>) out of the ARBI SOC and gives it back to the
  charge budget. The import bound uses \<open>eta_ch \<le> 1\<close>, which the data model states
  (efficiencies in \<open>(0,1]\<close>): it makes the AC energy of a grid charge exceed \<open>EPS\<close>
  whenever the net energy does. The export bound needs no assumption on the efficiencies.
\<close>

theorem commit_grid_caps_enforced:
  assumes "i < length hs" "eta_ch P \<le> 1"
    and "cap_grid_export_ac_mwh (hs ! i) = Finite ce" "0 \<le> ce"
    and "cap_grid_import_ac_mwh (hs ! i) = Finite ci" "0 \<le> ci"
  shows "export_from_surplus_ac_mwh (flows (commit_run P soc0_oze soc0_arbi hs ! i))
           + export_from_arbi_ac_mwh (flows (commit_run P soc0_oze soc0_arbi hs ! i)) \<le> ce + EPS \<and>
         import_for_load_ac_mwh (flows (commit_run P soc0_oze soc0_arbi hs ! i))
           + import_for_arbi_ac_mwh (flows (commit_run P soc0_oze soc0_arbi hs ! i)) \<le> ci + EPS \<and>
         (\<exists>so sa s0 s1 s2.
            s0 = steps_1_to_4 P (hs ! i) so sa \<and>
            s1 = enforce_export_cap P (hs ! i) s0 \<and>
            s2 = enforce_import_cap P (hs ! i) s1 \<and>
            flows (commit_run P soc0_oze soc0_arbi hs ! i) = step_pct P (step_idle P s2) \<and>
            (export_from_surplus_ac_mwh s1 < export_from_surplus_ac_mwh s0 \<longrightarrow>
               export_from_arbi_ac_mwh s1 = 0) \<and>
            (import_for_load_ac_mwh s2 < import_for_load_ac_mwh s1 \<longrightarrow>
               import_for_arbi_ac_mwh s2 = 0) \<and>
            (export_from_arbi_ac_mwh s1 < export_from_arbi_ac_mwh s0 \<longrightarrow>
               soc_arbi s1 = min (emax_arbi P) (soc_arbi s0 +
                 (if eta_dis P > EPS
                  then (export_from_arbi_ac_mwh s0 - export_from_arbi_ac_mwh s1) / eta_dis P
                  else export_from_arbi_ac_mwh s0 - export_from_arbi_ac_mwh s1)) \<and>
               dis_net_budget s1 =
                 (case cap_bess_discharge_net_mwh (hs ! i) of
                    Finite c \<Rightarrow> brestore (dis_net_budget s0)
                      (if eta_dis P > EPS
                       then (export_from_arbi_ac_mwh s0 - export_from_arbi_ac_mwh s1) / eta_dis P
                       else export_from_arbi_ac_mwh s0 - export_from_arbi_ac_mwh s1) c
                  | _ \<Rightarrow> dis_net_budget s0)) \<and>
            (import_for_arbi_ac_mwh s2 < import_for_arbi_ac_mwh s1 \<and>
             EPS < (import_for_arbi_ac_mwh s1 - import_for_arbi_ac_mwh s2) * eta_ch P \<longrightarrow>
               soc_arbi s2 = max 0 (soc_arbi s1 -
                 (import_for_arbi_ac_mwh s1 - import_for_arbi_ac_mwh s2) * eta_ch P) \<and>
               ch_net_budget s2 =
                 (case cap_bess_charge_net_mwh (hs ! i) of
                    Finite c \<Rightarrow> brestore (ch_net_budget s1)
                      ((import_for_arbi_ac_mwh s1 - import_for_arbi_ac_mwh s2) * eta_ch P) c
                  | _ \<Rightarrow> ch_net_budget s1)))"
proof -
  from nth_commit_loop[OF assms(1), of P soc0_oze soc0_arbi]
  obtain so sa where l: "commit_loop P soc0_oze soc0_arbi hs ! i = commit_hour P (hs ! i) so sa"
    by blast
  have r: "flows (commit_run P soc0_oze soc0_arbi hs ! i) = commit_hour P (hs ! i) so sa"
    by (simp add: nth_commit_run[OF assms(1)] flows_kpi_row l)
  have e: "commit_hour P (hs ! i) so sa =
      step_pct P (step_idle P (enforce_import_cap P (hs ! i) (enforce_export_cap P (hs ! i)
        (steps_1_to_4 P (hs ! i) so sa))))"
    by (simp add: commit_hour_def)
  note b = commit_hour_caps(1)[OF assms(3,4), of P so sa]
    commit_hour_caps(2)[OF assms(2) assms(5,6), of so sa]
  note m = commit_hour_mechanism[OF assms(2) refl refl refl, of "hs ! i" so sa]
  show ?thesis
    unfolding r using b m e by blast
qed

theorem commit_grid_caps_enforced_witness:
  "0 < length [ex_hour] \<and> eta_ch ex_params \<le> 1 \<and>
   cap_grid_export_ac_mwh ([ex_hour] ! 0) = Finite 1 \<and> (0::real) \<le> 1 \<and>
   cap_grid_import_ac_mwh ([ex_hour] ! 0) = Finite 1 \<and>
   export_from_surplus_ac_mwh (flows (commit_run ex_params 1 1 [ex_hour] ! 0)) = 1 \<and>
   export_from_arbi_ac_mwh (flows (commit_run ex_params 1 1 [ex_hour] ! 0)) = 0 \<and>
   export_from_surplus_ac_mwh (flows (commit_run ex_params 1 1 [ex_hour] ! 0))
     + export_from_arbi_ac_mwh (flows (commit_run ex_params 1 1 [ex_hour] ! 0)) \<le> 1 + EPS \<and>
   import_for_load_ac_mwh (flows (commit_run ex_params 1 1 [ex_hour] ! 0))
     + import_for_arbi_ac_mwh (flows (commit_run ex_params 1 1 [ex_hour] ! 0)) \<le> 1 + EPS"
proof -
  have h: "0 < length [ex_hour]" "eta_ch ex_params \<le> 1"
    "cap_grid_export_ac_mwh ([ex_hour] ! 0) = Finite 1" "(0::real) \<le> 1"
    "cap_grid_import_ac_mwh ([ex_hour] ! 0) = Finite 1"
    by (simp_all add: ex_params_def ex_hour_def)
  have v: "export_from_surplus_ac_mwh (flows (commit_run ex_params 1 1 [ex_hour] ! 0)) = 1"
    "export_from_arbi_ac_mwh (flows (commit_run ex_params 1 1 [ex_hour] ! 0)) = 0"
    by (simp_all add: commit_defs ex_params_def ex_hour_def EPS_def Let_def)
  from commit_grid_caps_enforced[OF h(1,2,3,4) h(5) h(4), of 1 1]
  have b: "export_from_surplus_ac_mwh (flows (commit_run ex_params 1 1 [ex_hour] ! 0))
     + export_from_arbi_ac_mwh (flows (commit_run ex_params 1 1 [ex_hour] ! 0)) \<le> 1 + EPS"
    "import_for_load_ac_mwh (flows (commit_run ex_params 1 1 [ex_hour] ! 0))
     + import_for_arbi_ac_mwh (flows (commit_run ex_params 1 1 [ex_hour] ! 0)) \<le> 1 + EPS"
    by blast+
  from h v b show ?thesis by blast
qed

lemma round_double_zero: "round_double 0 = 0"
  by (simp add: round_double_def)

lemma fmul_zero: "fmul x 0 = 0"
  by (simp add: fmul_def round_double_zero)

lemma kpi_row_fields:
  "rev_arbi_to_grid_pln (kpi_row h s) = fmul (export_from_arbi_ac_mwh s) (price_eff (price_export_pln_mwh h))"
  "rev_surplus_export_pln (kpi_row h s) = fmul (export_from_surplus_ac_mwh s) (price_eff (price_export_pln_mwh h))"
  "cost_grid_to_arbi_pln (kpi_row h s) = fmul (import_for_arbi_ac_mwh s) (price_eff (price_import_pln_mwh h))"
  "cost_import_for_load_pln (kpi_row h s) = fmul (import_for_load_ac_mwh s) (price_eff (price_import_pln_mwh h))"
  "cashflow_arbi_pln (kpi_row h s) =
     fsub (rev_arbi_to_grid_pln (kpi_row h s)) (cost_grid_to_arbi_pln (kpi_row h s))"
  "cashflow_net_pln (kpi_row h s) =
     fsub (fsub (fadd (rev_arbi_to_grid_pln (kpi_row h s)) (rev_surplus_export_pln (kpi_row h s)))
                (cost_grid_to_arbi_pln (kpi_row h s)))
          (cost_import_for_load_pln (kpi_row h s))"
  "price_import_out (kpi_row h s) = price_import_pln_mwh h"
  "price_export_out (kpi_row h s) = price_export_pln_mwh h"
  by (simp_all add: kpi_row_def Let_def)

lemma ex_rounding_flows:
  "export_from_arbi_ac_mwh (commit_loop ex_params 1 1 [ex_hour_rounding] ! 0) = 1 / 2"
  "export_from_surplus_ac_mwh (commit_loop ex_params 1 1 [ex_hour_rounding] ! 0) = 1"
  "import_for_arbi_ac_mwh (commit_loop ex_params 1 1 [ex_hour_rounding] ! 0) = 1 / 4"
  "import_for_load_ac_mwh (commit_loop ex_params 1 1 [ex_hour_rounding] ! 0) = 0"
  by (simp_all add: commit_defs ex_params_def ex_hour_rounding_def EPS_def Let_def)

lemma ex_rounding_products:
  "fmul (1 / 2) price_412_37 = 3627244879567913 / 2 ^ 44"
  "fmul 1 price_412_37 = 3627244879567913 / 2 ^ 43"
  "fmul (1 / 4) price_412_37 = 3627244879567913 / 2 ^ 45"
  by code_simp+

lemma ex_rounding_sums:
  "fsub (3627244879567913 / 2 ^ 44) (3627244879567913 / 2 ^ 45) = 3627244879567913 / 2 ^ 45"
  "fsub (fsub (fadd (3627244879567913 / 2 ^ 44) (3627244879567913 / 2 ^ 43))
           (3627244879567913 / 2 ^ 45)) 0 = 1133514024864973 / 2 ^ 41"
  "fsub (fadd (3627244879567913 / 2 ^ 45) (3627244879567913 / 2 ^ 43)) 0
     = 4534056099459891 / 2 ^ 43"
  by code_simp+

lemma ex_rounding_row:
  "rev_arbi_to_grid_pln (commit_run ex_params 1 1 [ex_hour_rounding] ! 0) = 3627244879567913 / 2 ^ 44"
  "rev_surplus_export_pln (commit_run ex_params 1 1 [ex_hour_rounding] ! 0) = 3627244879567913 / 2 ^ 43"
  "cost_grid_to_arbi_pln (commit_run ex_params 1 1 [ex_hour_rounding] ! 0) = 3627244879567913 / 2 ^ 45"
  "cost_import_for_load_pln (commit_run ex_params 1 1 [ex_hour_rounding] ! 0) = 0"
proof -
  have l: "0 < length [ex_hour_rounding]" by simp
  have p: "price_eff (price_import_pln_mwh ([ex_hour_rounding] ! 0)) = price_412_37"
    "price_eff (price_export_pln_mwh ([ex_hour_rounding] ! 0)) = price_412_37"
    by (simp_all add: ex_hour_rounding_def)
  show "rev_arbi_to_grid_pln (commit_run ex_params 1 1 [ex_hour_rounding] ! 0) = 3627244879567913 / 2 ^ 44"
    unfolding nth_commit_run[OF l] kpi_row_fields p ex_rounding_flows by (rule ex_rounding_products)
  show "rev_surplus_export_pln (commit_run ex_params 1 1 [ex_hour_rounding] ! 0) = 3627244879567913 / 2 ^ 43"
    unfolding nth_commit_run[OF l] kpi_row_fields p ex_rounding_flows by (rule ex_rounding_products)
  show "cost_grid_to_arbi_pln (commit_run ex_params 1 1 [ex_hour_rounding] ! 0) = 3627244879567913 / 2 ^ 45"
    unfolding nth_commit_run[OF l] kpi_row_fields p ex_rounding_flows by (rule ex_rounding_products)
  show "cost_import_for_load_pln (commit_run ex_params 1 1 [ex_hour_rounding] ! 0) = 0"
    unfolding nth_commit_run[OF l] kpi_row_fields p ex_rounding_flows by (simp add: fmul_def round_double_zero)
qed

lemma ex_rounding_cashflows:
  "cashflow_arbi_pln (commit_run ex_params 1 1 [ex_hour_rounding] ! 0) = 3627244879567913 / 2 ^ 45"
  "cashflow_net_pln (commit_run ex_params 1 1 [ex_hour_rounding] ! 0) = 1133514024864973 / 2 ^ 41"
proof -
  have l: "0 < length [ex_hour_rounding]" by simp
  note r = ex_rounding_row[unfolded nth_commit_run[OF l]]
  show "cashflow_arbi_pln (commit_run ex_params 1 1 [ex_hour_rounding] ! 0) = 3627244879567913 / 2 ^ 45"
    unfolding nth_commit_run[OF l] kpi_row_fields(5) r by (rule ex_rounding_sums)
  show "cashflow_net_pln (commit_run ex_params 1 1 [ex_hour_rounding] ! 0) = 1133514024864973 / 2 ^ 41"
    unfolding nth_commit_run[OF l] kpi_row_fields(6) r by (rule ex_rounding_sums)
qed

text \<open>
  Claim C4, as amended. For every hour, \<open>cashflow_arbi\<close> is the binary64 difference
  \<open>rev_arbi_to_grid - cost_grid_to_arbi\<close>: the identity is exact. \<open>cashflow_net\<close> is
  \<open>((rev_arbi_to_grid + rev_surplus_export) - cost_grid_to_arbi) - cost_import_for_load\<close>,
  each operation rounded to binary64. It equals the binary64 value of
  \<open>cashflow_arbi + rev_surplus_export - cost_import_for_load\<close> whenever the sums
  \<open>rev_arbi + rev_surplus\<close>, \<open>rev_arbi + rev_surplus - cost_arbi\<close>, \<open>rev_arbi - cost_arbi\<close> and
  \<open>rev_arbi - cost_arbi + rev_surplus\<close> are binary64 numbers, so that nothing is rounded
  before the last subtraction.
\<close>

theorem commit_cashflow_identities:
  assumes "i < length hs"
  shows "cashflow_arbi_pln (commit_run P soc0_oze soc0_arbi hs ! i) =
           fsub (rev_arbi_to_grid_pln (commit_run P soc0_oze soc0_arbi hs ! i)) (cost_grid_to_arbi_pln (commit_run P soc0_oze soc0_arbi hs ! i)) \<and>
         cashflow_net_pln (commit_run P soc0_oze soc0_arbi hs ! i) =
           fsub (fsub (fadd (rev_arbi_to_grid_pln (commit_run P soc0_oze soc0_arbi hs ! i)) (rev_surplus_export_pln (commit_run P soc0_oze soc0_arbi hs ! i)))
                      (cost_grid_to_arbi_pln (commit_run P soc0_oze soc0_arbi hs ! i)))
                (cost_import_for_load_pln (commit_run P soc0_oze soc0_arbi hs ! i)) \<and>
         (round_double (rev_arbi_to_grid_pln (commit_run P soc0_oze soc0_arbi hs ! i) + rev_surplus_export_pln (commit_run P soc0_oze soc0_arbi hs ! i))
            = rev_arbi_to_grid_pln (commit_run P soc0_oze soc0_arbi hs ! i) + rev_surplus_export_pln (commit_run P soc0_oze soc0_arbi hs ! i) \<and>
          round_double (rev_arbi_to_grid_pln (commit_run P soc0_oze soc0_arbi hs ! i) + rev_surplus_export_pln (commit_run P soc0_oze soc0_arbi hs ! i)
                          - cost_grid_to_arbi_pln (commit_run P soc0_oze soc0_arbi hs ! i))
            = rev_arbi_to_grid_pln (commit_run P soc0_oze soc0_arbi hs ! i) + rev_surplus_export_pln (commit_run P soc0_oze soc0_arbi hs ! i) - cost_grid_to_arbi_pln (commit_run P soc0_oze soc0_arbi hs ! i) \<and>
          round_double (rev_arbi_to_grid_pln (commit_run P soc0_oze soc0_arbi hs ! i) - cost_grid_to_arbi_pln (commit_run P soc0_oze soc0_arbi hs ! i))
            = rev_arbi_to_grid_pln (commit_run P soc0_oze soc0_arbi hs ! i) - cost_grid_to_arbi_pln (commit_run P soc0_oze soc0_arbi hs ! i) \<and>
          round_double (rev_arbi_to_grid_pln (commit_run P soc0_oze soc0_arbi hs ! i) - cost_grid_to_arbi_pln (commit_run P soc0_oze soc0_arbi hs ! i)
                          + rev_surplus_export_pln (commit_run P soc0_oze soc0_arbi hs ! i))
            = rev_arbi_to_grid_pln (commit_run P soc0_oze soc0_arbi hs ! i) - cost_grid_to_arbi_pln (commit_run P soc0_oze soc0_arbi hs ! i) + rev_surplus_export_pln (commit_run P soc0_oze soc0_arbi hs ! i)
          \<longrightarrow>
            cashflow_net_pln (commit_run P soc0_oze soc0_arbi hs ! i) =
              fsub (fadd (cashflow_arbi_pln (commit_run P soc0_oze soc0_arbi hs ! i)) (rev_surplus_export_pln (commit_run P soc0_oze soc0_arbi hs ! i)))
                   (cost_import_for_load_pln (commit_run P soc0_oze soc0_arbi hs ! i)))"
proof -
  define ra where "ra = rev_arbi_to_grid_pln (commit_run P soc0_oze soc0_arbi hs ! i)"
  define rs where "rs = rev_surplus_export_pln (commit_run P soc0_oze soc0_arbi hs ! i)"
  define ca where "ca = cost_grid_to_arbi_pln (commit_run P soc0_oze soc0_arbi hs ! i)"
  define cl where "cl = cost_import_for_load_pln (commit_run P soc0_oze soc0_arbi hs ! i)"
  have a: "cashflow_arbi_pln (commit_run P soc0_oze soc0_arbi hs ! i) = fsub ra ca"
    unfolding ra_def ca_def nth_commit_run[OF assms] by (rule kpi_row_fields(5))
  have n: "cashflow_net_pln (commit_run P soc0_oze soc0_arbi hs ! i) = fsub (fsub (fadd ra rs) ca) cl"
    unfolding ra_def rs_def ca_def cl_def nth_commit_run[OF assms] by (rule kpi_row_fields(6))
  have e: "fsub (fsub (fadd ra rs) ca) cl = fsub (fadd (fsub ra ca) rs) cl"
    if "round_double (ra + rs) = ra + rs" "round_double (ra + rs - ca) = ra + rs - ca"
      "round_double (ra - ca) = ra - ca" "round_double (ra - ca + rs) = ra - ca + rs"
  proof -
    have "fsub (fsub (fadd ra rs) ca) cl = round_double (ra + rs - ca - cl)"
      by (simp add: fsub_def fadd_def that(1,2))
    moreover have "fsub (fadd (fsub ra ca) rs) cl = round_double (ra - ca + rs - cl)"
      by (simp add: fsub_def fadd_def that(3,4))
    moreover have "ra + rs - ca - cl = ra - ca + rs - cl" by simp
    ultimately show ?thesis by simp
  qed
  from a n e show ?thesis
    unfolding ra_def rs_def ca_def cl_def by simp
qed

theorem commit_cashflow_identities_witness:
  "0 < length [ex_hour] \<and>
   rev_arbi_to_grid_pln (commit_run ex_params 1 1 [ex_hour] ! 0) = 0 \<and> rev_surplus_export_pln (commit_run ex_params 1 1 [ex_hour] ! 0) = 100 \<and>
   cost_grid_to_arbi_pln (commit_run ex_params 1 1 [ex_hour] ! 0) = 0 \<and> cost_import_for_load_pln (commit_run ex_params 1 1 [ex_hour] ! 0) = 0 \<and>
   round_double 100 = 100 \<and>
   cashflow_arbi_pln (commit_run ex_params 1 1 [ex_hour] ! 0) = fsub 0 0 \<and>
   cashflow_net_pln (commit_run ex_params 1 1 [ex_hour] ! 0) = fsub (fadd (cashflow_arbi_pln (commit_run ex_params 1 1 [ex_hour] ! 0)) 100) 0 \<and>
   cashflow_net_pln (commit_run ex_params 1 1 [ex_hour] ! 0) = 100"
proof -
  have l: "0 < length [ex_hour]" by simp
  have v: "rev_arbi_to_grid_pln (commit_run ex_params 1 1 [ex_hour] ! 0) = 0" "rev_surplus_export_pln (commit_run ex_params 1 1 [ex_hour] ! 0) = 100"
    "cost_grid_to_arbi_pln (commit_run ex_params 1 1 [ex_hour] ! 0) = 0" "cost_import_for_load_pln (commit_run ex_params 1 1 [ex_hour] ! 0) = 0"
    "cashflow_net_pln (commit_run ex_params 1 1 [ex_hour] ! 0) = 100"
    by code_simp+
  have r: "round_double 100 = 100" by code_simp
  have e: "round_double (0 + 100) = (0::real) + 100"
    "round_double (0 + 100 - 0) = (0::real) + 100 - 0"
    "round_double (0 - 0) = (0::real) - 0"
    "round_double (0 - 0 + 100) = (0::real) - 0 + 100"
    by (simp_all add: r round_double_zero)
  from commit_cashflow_identities[OF l, of ex_params 1 1]
  have "cashflow_arbi_pln (commit_run ex_params 1 1 [ex_hour] ! 0) = fsub 0 0 \<and>
        cashflow_net_pln (commit_run ex_params 1 1 [ex_hour] ! 0) = fsub (fadd (cashflow_arbi_pln (commit_run ex_params 1 1 [ex_hour] ! 0)) 100) 0"
    unfolding v(1-4) using e by blast
  with l v r show ?thesis by simp
qed

text \<open>
  Claim C4 as stated has \<open>cashflow_net = cashflow_arbi + rev_surplus_export -
  cost_import_for_load\<close> exactly. In the sample hour the ARBI pool sells 0.5 MWh and buys
  0.25 MWh and 1 MWh of surplus is exported, at the binary64 price nearest to 412.37: the
  source's order of operations gives \<open>515.4625000000001\<close>, the sum of the claim gives
  \<open>515.4625\<close> in binary64, and neither that nor the unrounded sum is \<open>cashflow_net\<close>.
\<close>

theorem commit_cashflow_net_rounding_counterexample:
  "cashflow_net_pln (commit_run ex_params 1 1 [ex_hour_rounding] ! 0) = 1133514024864973 / 2 ^ 41 \<and>
   fsub (fadd (cashflow_arbi_pln (commit_run ex_params 1 1 [ex_hour_rounding] ! 0))
              (rev_surplus_export_pln (commit_run ex_params 1 1 [ex_hour_rounding] ! 0)))
        (cost_import_for_load_pln (commit_run ex_params 1 1 [ex_hour_rounding] ! 0))
     = 4534056099459891 / 2 ^ 43 \<and>
   cashflow_net_pln (commit_run ex_params 1 1 [ex_hour_rounding] ! 0) \<noteq>
     fsub (fadd (cashflow_arbi_pln (commit_run ex_params 1 1 [ex_hour_rounding] ! 0))
                (rev_surplus_export_pln (commit_run ex_params 1 1 [ex_hour_rounding] ! 0)))
          (cost_import_for_load_pln (commit_run ex_params 1 1 [ex_hour_rounding] ! 0)) \<and>
   cashflow_net_pln (commit_run ex_params 1 1 [ex_hour_rounding] ! 0) \<noteq>
     cashflow_arbi_pln (commit_run ex_params 1 1 [ex_hour_rounding] ! 0)
     + rev_surplus_export_pln (commit_run ex_params 1 1 [ex_hour_rounding] ! 0)
     - cost_import_for_load_pln (commit_run ex_params 1 1 [ex_hour_rounding] ! 0)"
  unfolding ex_rounding_cashflows ex_rounding_row ex_rounding_sums(3)
  by simp

text \<open>
  Claim C10 says that \<open>soc_oze_pct_of_total\<close> and \<open>soc_arbi_pct_of_total\<close> lie in \<open>[0,1]\<close>,
  the range \<open>_check_03_commit\<close> of \<open>06_validate.py\<close> accepts. The commit stage computes
  \<open>100 * soc / total_emax\<close>: in the sample hour, with both pools of capacity 1 full, both
  shares are 50.
\<close>

theorem commit_soc_share_exceeds_one:
  "soc_arbi_pct_of_total (flows (commit_run ex_params 1 1 [ex_hour] ! 0)) = 50 \<and>
   soc_oze_pct_of_total (flows (commit_run ex_params 1 1 [ex_hour] ! 0)) = 50 \<and>
   \<not> soc_arbi_pct_of_total (flows (commit_run ex_params 1 1 [ex_hour] ! 0)) \<le> 1"
  by (simp add: commit_defs ex_params_def ex_hour_def EPS_def Let_def)

lemma fields_ignore_prices:
  "cap_grid_export_ac_mwh (h\<lparr>price_import_pln_mwh := a, price_export_pln_mwh := b\<rparr>) = cap_grid_export_ac_mwh h"
  "cap_grid_import_ac_mwh (h\<lparr>price_import_pln_mwh := a, price_export_pln_mwh := b\<rparr>) = cap_grid_import_ac_mwh h"
  "cap_bess_charge_net_mwh (h\<lparr>price_import_pln_mwh := a, price_export_pln_mwh := b\<rparr>) = cap_bess_charge_net_mwh h"
  "cap_bess_discharge_net_mwh (h\<lparr>price_import_pln_mwh := a, price_export_pln_mwh := b\<rparr>) = cap_bess_discharge_net_mwh h"
  "H_surplus_net_mwh (h\<lparr>price_import_pln_mwh := a, price_export_pln_mwh := b\<rparr>) = H_surplus_net_mwh h"
  "deficit_net_mwh (h\<lparr>price_import_pln_mwh := a, price_export_pln_mwh := b\<rparr>) = deficit_net_mwh h"
  "prop_arbi_dis_to_grid_ac_mwh (h\<lparr>price_import_pln_mwh := a, price_export_pln_mwh := b\<rparr>) = prop_arbi_dis_to_grid_ac_mwh h"
  "prop_arbi_ch_from_grid_ac_mwh (h\<lparr>price_import_pln_mwh := a, price_export_pln_mwh := b\<rparr>) = prop_arbi_ch_from_grid_ac_mwh h"
  by simp_all

lemma substeps_ignore_prices:
  "surplus_to_arbi P (h\<lparr>price_import_pln_mwh := a, price_export_pln_mwh := b\<rparr>) s = surplus_to_arbi P h s"
  "step_deficit P (h\<lparr>price_import_pln_mwh := a, price_export_pln_mwh := b\<rparr>) s = step_deficit P h s"
  "step_arbi_to_grid P (h\<lparr>price_import_pln_mwh := a, price_export_pln_mwh := b\<rparr>) s = step_arbi_to_grid P h s"
  "step_arbi_from_grid P (h\<lparr>price_import_pln_mwh := a, price_export_pln_mwh := b\<rparr>) s = step_arbi_from_grid P h s"
  "cut_export_arbi P (h\<lparr>price_import_pln_mwh := a, price_export_pln_mwh := b\<rparr>) x s = cut_export_arbi P h x s"
  "cut_import_arbi P (h\<lparr>price_import_pln_mwh := a, price_export_pln_mwh := b\<rparr>) x s = cut_import_arbi P h x s"
  "init_hour (h\<lparr>price_import_pln_mwh := a, price_export_pln_mwh := b\<rparr>) so sa = init_hour h so sa"
  unfolding surplus_to_arbi_def step_deficit_def step_arbi_to_grid_def
      step_arbi_from_grid_def cut_export_arbi_def cut_import_arbi_def init_hour_def
      fields_ignore_prices
  by (rule refl)+

lemma steps_ignore_prices:
  "step_surplus P (h\<lparr>price_import_pln_mwh := a, price_export_pln_mwh := b\<rparr>) s = step_surplus P h s"
  "enforce_export_cap P (h\<lparr>price_import_pln_mwh := a, price_export_pln_mwh := b\<rparr>) s = enforce_export_cap P h s"
  "enforce_import_cap P (h\<lparr>price_import_pln_mwh := a, price_export_pln_mwh := b\<rparr>) s = enforce_import_cap P h s"
  unfolding step_surplus_def enforce_export_cap_def enforce_import_cap_def substeps_ignore_prices
    fields_ignore_prices
  by (rule refl)+

lemma commit_hour_ignores_prices:
  "commit_hour P (missing_prices_as_zero h) so sa = commit_hour P h so sa"
  unfolding commit_hour_def steps_1_to_4_def missing_prices_as_zero_def
      substeps_ignore_prices steps_ignore_prices
  by (rule refl)

lemma commit_loop_ignores_prices:
  "commit_loop P so sa (map missing_prices_as_zero hs) = commit_loop P so sa hs"
  by (induction hs arbitrary: so sa) (simp_all add: commit_hour_ignores_prices Let_def)

lemma price_eff_zero_if_missing: "price_eff (zero_if_missing p) = price_eff p"
  by (cases p) (simp_all add: zero_if_missing_def)

lemma price_eff_missing: "\<not> isfinite p \<Longrightarrow> price_eff p = 0"
  by (cases p) simp_all

lemma kpi_row_missing_prices:
  "rev_arbi_to_grid_pln (kpi_row (missing_prices_as_zero h) s) = rev_arbi_to_grid_pln (kpi_row h s)"
  "rev_surplus_export_pln (kpi_row (missing_prices_as_zero h) s) = rev_surplus_export_pln (kpi_row h s)"
  "cost_grid_to_arbi_pln (kpi_row (missing_prices_as_zero h) s) = cost_grid_to_arbi_pln (kpi_row h s)"
  "cost_import_for_load_pln (kpi_row (missing_prices_as_zero h) s) = cost_import_for_load_pln (kpi_row h s)"
  "cashflow_arbi_pln (kpi_row (missing_prices_as_zero h) s) = cashflow_arbi_pln (kpi_row h s)"
  "cashflow_net_pln (kpi_row (missing_prices_as_zero h) s) = cashflow_net_pln (kpi_row h s)"
  by (simp_all add: kpi_row_def Let_def missing_prices_as_zero_def price_eff_zero_if_missing)

text \<open>
  Claim C8. Every revenue, cost and cashflow output of an hour is the one the commit stage
  computes on the input in which each non-finite price (NaN, \<open>+inf\<close>, \<open>-inf\<close>) is replaced
  by 0 PLN/MWh; in an hour whose import price is not finite both cost outputs are 0, and
  in an hour whose export price is not finite both revenue outputs are 0, whatever the
  flows. The two price columns the stage emits are the input prices, non-finite entries
  included. The revenue, cost and cashflow outputs are binary64 results of finite
  operands.
\<close>

theorem commit_missing_prices_count_as_zero:
  assumes "i < length hs"
  shows "rev_arbi_to_grid_pln (commit_run P soc0_oze soc0_arbi hs ! i) = rev_arbi_to_grid_pln (commit_run P soc0_oze soc0_arbi (map missing_prices_as_zero hs) ! i) \<and>
         rev_surplus_export_pln (commit_run P soc0_oze soc0_arbi hs ! i) = rev_surplus_export_pln (commit_run P soc0_oze soc0_arbi (map missing_prices_as_zero hs) ! i) \<and>
         cost_grid_to_arbi_pln (commit_run P soc0_oze soc0_arbi hs ! i) = cost_grid_to_arbi_pln (commit_run P soc0_oze soc0_arbi (map missing_prices_as_zero hs) ! i) \<and>
         cost_import_for_load_pln (commit_run P soc0_oze soc0_arbi hs ! i) = cost_import_for_load_pln (commit_run P soc0_oze soc0_arbi (map missing_prices_as_zero hs) ! i) \<and>
         cashflow_arbi_pln (commit_run P soc0_oze soc0_arbi hs ! i) = cashflow_arbi_pln (commit_run P soc0_oze soc0_arbi (map missing_prices_as_zero hs) ! i) \<and>
         cashflow_net_pln (commit_run P soc0_oze soc0_arbi hs ! i) = cashflow_net_pln (commit_run P soc0_oze soc0_arbi (map missing_prices_as_zero hs) ! i) \<and>
         (\<not> isfinite (price_import_pln_mwh (hs ! i)) \<longrightarrow>
            cost_grid_to_arbi_pln (commit_run P soc0_oze soc0_arbi hs ! i) = 0 \<and> cost_import_for_load_pln (commit_run P soc0_oze soc0_arbi hs ! i) = 0) \<and>
         (\<not> isfinite (price_export_pln_mwh (hs ! i)) \<longrightarrow>
            rev_arbi_to_grid_pln (commit_run P soc0_oze soc0_arbi hs ! i) = 0 \<and> rev_surplus_export_pln (commit_run P soc0_oze soc0_arbi hs ! i) = 0) \<and>
         price_import_out (commit_run P soc0_oze soc0_arbi hs ! i) = price_import_pln_mwh (hs ! i) \<and>
         price_export_out (commit_run P soc0_oze soc0_arbi hs ! i) = price_export_pln_mwh (hs ! i)"
proof -
  have j: "i < length (map missing_prices_as_zero hs)" using assms by simp
  have z: "commit_run P soc0_oze soc0_arbi (map missing_prices_as_zero hs) ! i = kpi_row (missing_prices_as_zero (hs ! i)) (commit_loop P soc0_oze soc0_arbi hs ! i)"
    unfolding nth_commit_run[OF j] commit_loop_ignores_prices using assms by simp
  have m: "\<not> isfinite (price_import_pln_mwh (hs ! i)) \<longrightarrow>
            cost_grid_to_arbi_pln (commit_run P soc0_oze soc0_arbi hs ! i) = 0 \<and> cost_import_for_load_pln (commit_run P soc0_oze soc0_arbi hs ! i) = 0"
    unfolding nth_commit_run[OF assms] kpi_row_fields
    by (simp add: price_eff_missing fmul_zero)
  have x: "\<not> isfinite (price_export_pln_mwh (hs ! i)) \<longrightarrow>
            rev_arbi_to_grid_pln (commit_run P soc0_oze soc0_arbi hs ! i) = 0 \<and> rev_surplus_export_pln (commit_run P soc0_oze soc0_arbi hs ! i) = 0"
    unfolding nth_commit_run[OF assms] kpi_row_fields
    by (simp add: price_eff_missing fmul_zero)
  have p: "price_import_out (commit_run P soc0_oze soc0_arbi hs ! i) = price_import_pln_mwh (hs ! i)"
    "price_export_out (commit_run P soc0_oze soc0_arbi hs ! i) = price_export_pln_mwh (hs ! i)"
    unfolding nth_commit_run[OF assms] by (rule kpi_row_fields(7) kpi_row_fields(8))+
  show ?thesis
    unfolding z kpi_row_missing_prices
    using m x p unfolding nth_commit_run[OF assms] by simp
qed

theorem commit_missing_prices_count_as_zero_witness:
  "0 < length [ex_hour_export_inf, ex_hour_import_nan] \<and>
   1 < length [ex_hour_export_inf, ex_hour_import_nan] \<and>
   price_export_pln_mwh ([ex_hour_export_inf, ex_hour_import_nan] ! 0) = PosInf \<and>
   export_from_surplus_ac_mwh (flows (commit_run ex_params 1 1 [ex_hour_export_inf, ex_hour_import_nan] ! 0)) = 1 \<and>
   rev_surplus_export_pln (commit_run ex_params 1 1 [ex_hour_export_inf, ex_hour_import_nan] ! 0) = 0 \<and>
   price_export_out (commit_run ex_params 1 1 [ex_hour_export_inf, ex_hour_import_nan] ! 0) = PosInf \<and>
   price_import_pln_mwh ([ex_hour_export_inf, ex_hour_import_nan] ! 1) = NaN \<and>
   import_for_load_ac_mwh (flows (commit_run ex_params 1 1 [ex_hour_export_inf, ex_hour_import_nan] ! 1)) = 1 \<and>
   cost_import_for_load_pln (commit_run ex_params 1 1 [ex_hour_export_inf, ex_hour_import_nan] ! 1) = 0 \<and>
   price_import_out (commit_run ex_params 1 1 [ex_hour_export_inf, ex_hour_import_nan] ! 1) = NaN \<and>
   cashflow_net_pln (commit_run ex_params 1 1 [ex_hour_export_inf, ex_hour_import_nan] ! 1) =
     cashflow_net_pln (commit_run ex_params 1 1
        (map missing_prices_as_zero [ex_hour_export_inf, ex_hour_import_nan]) ! 1)"
proof -
  have l: "0 < length [ex_hour_export_inf, ex_hour_import_nan]"
    "1 < length [ex_hour_export_inf, ex_hour_import_nan]" by simp_all
  have q: "price_export_pln_mwh ([ex_hour_export_inf, ex_hour_import_nan] ! 0) = PosInf"
    "price_import_pln_mwh ([ex_hour_export_inf, ex_hour_import_nan] ! 1) = NaN"
    by (simp_all add: ex_hour_export_inf_def ex_hour_import_nan_def ex_hour_def)
  have f: "export_from_surplus_ac_mwh (flows (commit_run ex_params 1 1 [ex_hour_export_inf, ex_hour_import_nan] ! 0)) = 1"
    "import_for_load_ac_mwh (flows (commit_run ex_params 1 1 [ex_hour_export_inf, ex_hour_import_nan] ! 1)) = 1"
    by code_simp+
  from commit_missing_prices_count_as_zero[OF l(1), of ex_params 1 1] q(1)
  have a: "rev_surplus_export_pln (commit_run ex_params 1 1 [ex_hour_export_inf, ex_hour_import_nan] ! 0) = 0" "price_export_out (commit_run ex_params 1 1 [ex_hour_export_inf, ex_hour_import_nan] ! 0) = PosInf"
    by simp_all
  from commit_missing_prices_count_as_zero[OF l(2), of ex_params 1 1] q(2)
  have b: "cost_import_for_load_pln (commit_run ex_params 1 1 [ex_hour_export_inf, ex_hour_import_nan] ! 1) = 0" "price_import_out (commit_run ex_params 1 1 [ex_hour_export_inf, ex_hour_import_nan] ! 1) = NaN"
    "cashflow_net_pln (commit_run ex_params 1 1 [ex_hour_export_inf, ex_hour_import_nan] ! 1) =
     cashflow_net_pln (commit_run ex_params 1 1
        (map missing_prices_as_zero [ex_hour_export_inf, ex_hour_import_nan]) ! 1)"
    by simp_all
  from l q f a b show ?thesis by blast
qed

section \<open>Stage 01: proofs\<close>

lemma length_mask_from_se: "length (mask_from_se s e) = 24"
  by (simp add: mask_from_se_def slice_ones_def Let_def)

lemma nth_mask_from_se:
  "h < 24 \<Longrightarrow> mask_from_se s e ! h = (if in_window s e h then 1 else 0)"
  by (auto simp: mask_from_se_def slice_ones_def Let_def in_window_def)

lemma mask_from_se_map:
  "mask_from_se s e = map (\<lambda>h. if in_window s e h then 1 else 0) [0..<24]"
  by (rule nth_equalityI) (simp_all add: length_mask_from_se nth_mask_from_se)

lemma map2_map_map: "map2 f (map g xs) (map k xs) = map (\<lambda>x. f (g x) (k x)) xs"
  by (induction xs) simp_all

lemma sum_list_map_zero_iff:
  "sum_list (map f [0..<n]) = (0::nat) \<longleftrightarrow> (\<forall>h<n. f h = 0)"
  by (induction n) (auto simp: less_Suc_eq)

lemma sum_mask_zero_iff:
  "sum_list (mask_from_se s e) = 0 \<longleftrightarrow> (\<forall>h<24. \<not> in_window s e h)"
  unfolding mask_from_se_map sum_list_map_zero_iff by auto

lemma window_empty_iff:
  assumes "0 \<le> s" "s \<le> 24" "0 \<le> e" "e \<le> 24"
  shows "(\<forall>h<24. \<not> in_window s e h) \<longleftrightarrow> e = 0 \<and> (s = 0 \<or> s = 24)"
proof
  assume a: "\<forall>h<24. \<not> in_window s e h"
  show "e = 0 \<and> (s = 0 \<or> s = 24)"
  proof (rule ccontr)
    assume n: "\<not> (e = 0 \<and> (s = 0 \<or> s = 24))"
    show False
    proof (cases "s < e")
      case True
      then have "nat s < 24" "in_window s e (nat s)" using assms by (auto simp: in_window_def)
      with a show False by blast
    next
      case False
      show False
      proof (cases "e = 0")
        case True
        with n assms False have "nat s < 24" "in_window s e (nat s)" by (auto simp: in_window_def)
        with a show False by blast
      next
        case False
        with assms \<open>\<not> s < e\<close> have "(0::nat) < 24" "in_window s e 0" by (auto simp: in_window_def)
        with a show False by blast
      qed
    qed
  qed
next
  assume "e = 0 \<and> (s = 0 \<or> s = 24)"
  then show "\<forall>h<24. \<not> in_window s e h" by (auto simp: in_window_def)
qed

lemma overlap_sum:
  "sum_list (map2 min (mask_from_se s e) (mask_from_se s' e')) > 0 \<longleftrightarrow>
     (\<exists>h<24. in_window s e h \<and> in_window s' e' h)"
proof -
  define A where "A = sum_list (map2 min (mask_from_se s e) (mask_from_se s' e'))"
  have "A = 0 \<longleftrightarrow> (\<forall>h<24. \<not> (in_window s e h \<and> in_window s' e' h))"
    unfolding A_def mask_from_se_map map2_map_map sum_list_map_zero_iff by auto
  then have "A > 0 \<longleftrightarrow> (\<exists>h<24. in_window s e h \<and> in_window s' e' h)"
    by auto
  then show ?thesis unfolding A_def .
qed

lemma sum3_const:
  assumes "\<forall>x\<in>set xs. f x + g x + k x = (1::nat)"
  shows "sum_list (map f xs) + sum_list (map g xs) + sum_list (map k xs) = length xs"
  using assms by (induction xs) auto

lemma off_map:
  "map (\<lambda>v. 1 - v) (map2 max (mask_from_se s e) (mask_from_se s' e')) =
     map (\<lambda>h. 1 - max (if in_window s e h then 1 else 0) (if in_window s' e' h then 1 else (0::nat))) [0..<24]"
  by (simp add: mask_from_se_map map2_map_map)

lemma partition_sum:
  assumes "\<not> (\<exists>h<24. in_window s e h \<and> in_window s' e' h)"
  shows "sum_list (map (\<lambda>v. 1 - v) (map2 max (mask_from_se s e) (mask_from_se s' e')))
          + sum_list (mask_from_se s e) + sum_list (mask_from_se s' e') = 24"
proof -
  have pt: "\<forall>h\<in>set [0..<24].
      (1 - max (if in_window s e h then 1 else 0) (if in_window s' e' h then 1 else (0::nat)))
      + (if in_window s e h then 1 else 0) + (if in_window s' e' h then 1 else 0) = 1"
    using assms by auto
  show ?thesis
    unfolding off_map unfolding mask_from_se_map
    using sum3_const[OF pt] by simp
qed

lemma off_nth:
  assumes "h < 24"
  shows "map (\<lambda>v. 1 - v) (map2 max (mask_from_se s e) (mask_from_se s' e')) ! h =
         (if in_window s e h \<or> in_window s' e' h then 0 else 1)"
  using assms unfolding off_map by simp

lemma month_masks_unfold:
  assumes "build_peak_masks_24h_am_pm s e s' e' = Inr (am, pm)"
    and "A = sum_list am" "B = sum_list pm" "ov = sum_list (map2 min am pm)"
    and "off = map (\<lambda>v. 1 - v) (map2 max am pm)"
    and "S = sum_list off + A + B"
  shows "month_masks s e s' e' =
     (if A = 0 \<and> B = 0 then Inr (replicate 24 0, replicate 24 0, replicate 24 1)
      else if ov > 0 then Inl MaskOverlap
      else if S \<noteq> 24 then Inl MaskSumNot24
      else Inr (am, pm, off))"
  unfolding month_masks_def assms Let_def by simp

lemma month_masks_in_range:
  assumes "0 \<le> s" "s \<le> 24" "0 \<le> e" "e \<le> 24" "0 \<le> s'" "s' \<le> 24" "0 \<le> e'" "e' \<le> 24"
  shows "month_masks s e s' e' =
     (if (\<forall>h<24. \<not> in_window s e h) \<and> (\<forall>h<24. \<not> in_window s' e' h)
      then Inr (replicate 24 0, replicate 24 0, replicate 24 1)
      else if (\<exists>h<24. in_window s e h \<and> in_window s' e' h) then Inl MaskOverlap
      else Inr (mask_from_se s e, mask_from_se s' e',
                map (\<lambda>v. 1 - v) (map2 max (mask_from_se s e) (mask_from_se s' e'))))"
proof -
  define A where "A = sum_list (mask_from_se s e)"
  define B where "B = sum_list (mask_from_se s' e')"
  define ov where "ov = sum_list (map2 min (mask_from_se s e) (mask_from_se s' e'))"
  define off where "off = map (\<lambda>v. 1 - v) (map2 max (mask_from_se s e) (mask_from_se s' e'))"
  define S where "S = sum_list off + A + B"
  have b: "build_peak_masks_24h_am_pm s e s' e' = Inr (mask_from_se s e, mask_from_se s' e')"
    using assms by (simp add: build_peak_masks_24h_am_pm_def window_def)
  note u = month_masks_unfold[OF b A_def B_def ov_def off_def S_def]
  have c1: "(A = 0 \<and> B = 0) \<longleftrightarrow> (\<forall>h<24. \<not> in_window s e h) \<and> (\<forall>h<24. \<not> in_window s' e' h)"
    unfolding A_def B_def sum_mask_zero_iff ..
  have c2: "ov > 0 \<longleftrightarrow> (\<exists>h<24. in_window s e h \<and> in_window s' e' h)"
    unfolding ov_def by (rule overlap_sum)
  have c3: "\<not> (\<exists>h<24. in_window s e h \<and> in_window s' e' h) \<Longrightarrow> S = 24"
    unfolding S_def off_def A_def B_def by (rule partition_sum)
  show ?thesis
    unfolding u c1 c2 off_def[symmetric] using c3 by auto
qed


lemma mask_nth_one_iff: "h < 24 \<Longrightarrow> mask_from_se s e ! h = 1 \<longleftrightarrow> in_window s e h"
  by (simp add: nth_mask_from_se)

text \<open>
  What the masks of a (month, mode) satisfy for windows inside \<open>0..24\<close>. A window yields the
  empty mask exactly when its end is 0 and its start is 0 or 24. When both masks are empty,
  the month gets \<open>mask_off\<close> = 24 hours and \<open>mask_am = mask_pm = 0\<close>. Otherwise the stage
  raises on an hour that lies in both masks, and else returns masks in which every hour of
  the day lies in exactly one of AM, PM and OFF, so that
  \<open>mask_am + mask_pm + mask_off = 24\<close>; the total check never fails.
\<close>

theorem month_masks_empty_or_partition:
  assumes "0 \<le> s" "s \<le> 24" "0 \<le> e" "e \<le> 24" "0 \<le> s'" "s' \<le> 24" "0 \<le> e'" "e' \<le> 24"
  shows "(sum_list (mask_from_se s e) = 0 \<longleftrightarrow> e = 0 \<and> (s = 0 \<or> s = 24)) \<and>
         (sum_list (mask_from_se s' e') = 0 \<longleftrightarrow> e' = 0 \<and> (s' = 0 \<or> s' = 24)) \<and>
         (sum_list (mask_from_se s e) = 0 \<and> sum_list (mask_from_se s' e') = 0 \<longrightarrow>
            month_masks s e s' e' = Inr (replicate 24 0, replicate 24 0, replicate 24 1)) \<and>
         (\<not> (sum_list (mask_from_se s e) = 0 \<and> sum_list (mask_from_se s' e') = 0) \<and>
          (\<exists>h<24. mask_from_se s e ! h = 1 \<and> mask_from_se s' e' ! h = 1) \<longrightarrow>
            month_masks s e s' e' = Inl MaskOverlap) \<and>
         (\<not> (sum_list (mask_from_se s e) = 0 \<and> sum_list (mask_from_se s' e') = 0) \<and>
          \<not> (\<exists>h<24. mask_from_se s e ! h = 1 \<and> mask_from_se s' e' ! h = 1) \<longrightarrow>
            (\<exists>am pm off. month_masks s e s' e' = Inr (am, pm, off) \<and>
               am = mask_from_se s e \<and> pm = mask_from_se s' e' \<and>
               length off = 24 \<and>
               sum_list am + sum_list pm + sum_list off = 24 \<and>
               (\<forall>h<24. am ! h + pm ! h + off ! h = 1)))"
proof -
  note r = month_masks_in_range[OF assms]
  have ov: "(\<exists>h<24. mask_from_se s e ! h = 1 \<and> mask_from_se s' e' ! h = 1) \<longleftrightarrow>
            (\<exists>h<24. in_window s e h \<and> in_window s' e' h)"
    using mask_nth_one_iff by blast
  have a: "sum_list (mask_from_se s e) = 0 \<longleftrightarrow> e = 0 \<and> (s = 0 \<or> s = 24)"
    unfolding sum_mask_zero_iff by (rule window_empty_iff[OF assms(1-4)])
  have b: "sum_list (mask_from_se s' e') = 0 \<longleftrightarrow> e' = 0 \<and> (s' = 0 \<or> s' = 24)"
    unfolding sum_mask_zero_iff by (rule window_empty_iff[OF assms(5-8)])
  have c: "sum_list (mask_from_se s e) = 0 \<and> sum_list (mask_from_se s' e') = 0 \<longrightarrow>
            month_masks s e s' e' = Inr (replicate 24 0, replicate 24 0, replicate 24 1)"
    unfolding sum_mask_zero_iff r by simp
  have d: "\<not> (sum_list (mask_from_se s e) = 0 \<and> sum_list (mask_from_se s' e') = 0) \<and>
          (\<exists>h<24. mask_from_se s e ! h = 1 \<and> mask_from_se s' e' ! h = 1) \<longrightarrow>
            month_masks s e s' e' = Inl MaskOverlap"
    unfolding sum_mask_zero_iff r ov by simp
  have f: "\<not> (sum_list (mask_from_se s e) = 0 \<and> sum_list (mask_from_se s' e') = 0) \<and>
          \<not> (\<exists>h<24. mask_from_se s e ! h = 1 \<and> mask_from_se s' e' ! h = 1) \<longrightarrow>
            (\<exists>am pm off. month_masks s e s' e' = Inr (am, pm, off) \<and>
               am = mask_from_se s e \<and> pm = mask_from_se s' e' \<and>
               length off = 24 \<and>
               sum_list am + sum_list pm + sum_list off = 24 \<and>
               (\<forall>h<24. am ! h + pm ! h + off ! h = 1))"
  proof
    assume h: "\<not> (sum_list (mask_from_se s e) = 0 \<and> sum_list (mask_from_se s' e') = 0) \<and>
          \<not> (\<exists>h<24. mask_from_se s e ! h = 1 \<and> mask_from_se s' e' ! h = 1)"
    then have no: "\<not> (\<exists>h<24. in_window s e h \<and> in_window s' e' h)"
      and ne: "\<not> ((\<forall>h<24. \<not> in_window s e h) \<and> (\<forall>h<24. \<not> in_window s' e' h))"
      unfolding ov sum_mask_zero_iff by blast+
    define off where "off = map (\<lambda>v. 1 - v) (map2 max (mask_from_se s e) (mask_from_se s' e'))"
    have m: "month_masks s e s' e' = Inr (mask_from_se s e, mask_from_se s' e', off)"
      unfolding r off_def by (simp only: if_not_P[OF ne] if_not_P[OF no])
    have l: "length off = 24" unfolding off_def off_map by simp
    have t: "sum_list (mask_from_se s e) + sum_list (mask_from_se s' e') + sum_list off = 24"
      using partition_sum[OF no] unfolding off_def by simp
    have p: "\<forall>h<24. mask_from_se s e ! h + mask_from_se s' e' ! h + off ! h = 1"
    proof (intro allI impI)
      fix h :: nat
      assume h: "h < 24"
      have o: "off ! h = (if in_window s e h \<or> in_window s' e' h then 0 else 1)"
        unfolding off_def by (rule off_nth[OF h])
      show "mask_from_se s e ! h + mask_from_se s' e' ! h + off ! h = 1"
        unfolding o nth_mask_from_se[OF h] using no h by auto
    qed
    from m l t p show "\<exists>am pm off. month_masks s e s' e' = Inr (am, pm, off) \<and>
               am = mask_from_se s e \<and> pm = mask_from_se s' e' \<and>
               length off = 24 \<and>
               sum_list am + sum_list pm + sum_list off = 24 \<and>
               (\<forall>h<24. am ! h + pm ! h + off ! h = 1)"
      by blast
  qed
  from a b c d f show ?thesis by blast
qed

theorem month_masks_empty_or_partition_witness:
  "(0::int) \<le> 22 \<and> (22::int) \<le> 24 \<and> (0::int) \<le> 2 \<and> (2::int) \<le> 24 \<and>
   (0::int) \<le> 10 \<and> (10::int) \<le> 24 \<and> (0::int) \<le> 14 \<and> (14::int) \<le> 24 \<and>
   month_masks 22 2 10 14 =
     Inr ([1, 1, 0, 0, 0, 0, 0, 0, 0, 0, 0, 0, 0, 0, 0, 0, 0, 0, 0, 0, 0, 0, 1, 1],
          [0, 0, 0, 0, 0, 0, 0, 0, 0, 0, 1, 1, 1, 1, 0, 0, 0, 0, 0, 0, 0, 0, 0, 0],
          [0, 0, 1, 1, 1, 1, 1, 1, 1, 1, 0, 0, 0, 0, 1, 1, 1, 1, 1, 1, 1, 1, 0, 0]) \<and>
   sum_list (mask_from_se 22 2) \<noteq> 0 \<and>
   (\<exists>am pm off. month_masks 22 2 10 14 = Inr (am, pm, off) \<and>
      sum_list am + sum_list pm + sum_list off = 24)"
proof -
  have ev: "month_masks 22 2 10 14 =
     Inr ([1, 1, 0, 0, 0, 0, 0, 0, 0, 0, 0, 0, 0, 0, 0, 0, 0, 0, 0, 0, 0, 0, 1, 1],
          [0, 0, 0, 0, 0, 0, 0, 0, 0, 0, 1, 1, 1, 1, 0, 0, 0, 0, 0, 0, 0, 0, 0, 0],
          [0, 0, 1, 1, 1, 1, 1, 1, 1, 1, 0, 0, 0, 0, 1, 1, 1, 1, 1, 1, 1, 1, 0, 0])"
    by code_simp
  have nz: "sum_list (mask_from_se 22 2) \<noteq> 0" by code_simp
  have no: "\<not> (\<exists>h<24. mask_from_se 22 2 ! h = 1 \<and> mask_from_se 10 14 ! h = 1)"
    by (auto simp: nth_mask_from_se in_window_def)
  from month_masks_empty_or_partition[of 22 2 10 14] nz no
  have "\<exists>am pm off. month_masks 22 2 10 14 = Inr (am, pm, off) \<and>
      sum_list am + sum_list pm + sum_list off = 24"
    by auto
  with ev nz show ?thesis by simp
qed

text \<open>
  Claim C6. A (month, mode) whose morning and afternoon windows are both empty as half-open
  intervals, which includes any window with \<open>start = end\<close>, is to get \<open>mask_off\<close> = 24 hours
  and \<open>mask_am = mask_pm = 0\<close>. The docstring of \<open>_build_peak_masks_24h_am_pm\<close> reads the
  bounds as \<open>[start, end)\<close> and wraps past midnight when \<open>start > end\<close>, so that the window
  \<open>(5, 5)\<close> holds no hour. \<open>_mask_from_se\<close> returns the empty mask only for
  \<open>start = end = 0\<close>; for \<open>start = end = 5\<close> the test \<open>s < e\<close> fails and the wrap branch sets
  \<open>m[5:24]\<close> and \<open>m[0:5]\<close>. With \<open>morn = (5, 5)\<close> and \<open>aft = (0, 0)\<close> the AM mask covers all 24
  hours and OFF none.
\<close>

theorem month_masks_start_eq_end_fills_day:
  "mask_from_se 5 5 = replicate 24 1 \<and>
   month_masks 5 5 0 0 = Inr (replicate 24 1, replicate 24 0, replicate 24 0) \<and>
   month_masks 5 5 0 0 \<noteq> Inr (replicate 24 0, replicate 24 0, replicate 24 1)"
  by code_simp

section \<open>Stage 04b: proofs\<close>

lemma sum_list_const:
  "\<forall>x\<in>set xs. f x = (c::real) \<Longrightarrow> sum_list (map f xs) = c * real (length xs)"
  by (induction xs) (auto simp: algebra_simps)

lemma collect_all_Inr:
  "\<forall>x\<in>set xs. \<exists>v. f x = Inr v \<Longrightarrow> collect (map f xs) = Inr (map (\<lambda>x. projr (f x)) xs)"
  by (induction xs) (auto split: sum.splits)

lemma to_K_three:
  "to_K [t1, t2, t3] ds =
     Inr (if ds < t1 then ''K1'' else if ds < t2 then ''K2'' else if ds < t3 then ''K3'' else ''K4'')"
  by (simp add: to_K_def)

lemma in_day_rows:
  assumes "length pobor = length peak" "length peak = length day_id"
  shows "r \<in> set (day_rows pobor peak day_id d) \<longleftrightarrow>
         (\<exists>j<length pobor. r = (pobor ! j, peak ! j, day_id ! j) \<and> day_id ! j = d)"
  using assms by (auto simp: day_rows_def set_zip)


lemma day_delta_s_200:
  assumes len: "length pobor = length peak" "length peak = length day_id"
    and vals: "\<forall>j<length pobor. day_id ! j = d \<longrightarrow>
                 (peak ! j = 1 \<longrightarrow> pobor ! j = 6) \<and> (peak ! j = 0 \<longrightarrow> pobor ! j = 2)"
    and ex_peak: "\<exists>j<length pobor. day_id ! j = d \<and> peak ! j = 1"
    and ex_off: "\<exists>j<length pobor. day_id ! j = d \<and> peak ! j = 0"
  shows "day_delta_s pobor peak day_id d = 200"
proof -
  define rows where "rows = day_rows pobor peak day_id d"
  define pk where "pk = filter (\<lambda>r. fst (snd r) = 1) rows"
  define ok where "ok = filter (\<lambda>r. fst (snd r) = 0) rows"
  note mem = in_day_rows[OF len, of _ d, folded rows_def]
  have p6: "\<forall>r\<in>set pk. fst r = 6"
    using vals unfolding pk_def by (auto simp: mem)
  have o2: "\<forall>r\<in>set ok. fst r = 2"
    using vals unfolding ok_def by (auto simp: mem)
  from ex_peak obtain j where "j < length pobor" "day_id ! j = d" "peak ! j = 1" by blast
  then have "(pobor ! j, peak ! j, day_id ! j) \<in> set pk"
    unfolding pk_def by (auto simp: mem)
  then have np: "0 < length pk" by (cases pk) auto
  from ex_off obtain k where "k < length pobor" "day_id ! k = d" "peak ! k = 0" by blast
  then have "(pobor ! k, peak ! k, day_id ! k) \<in> set ok"
    unfolding ok_def by (auto simp: mem)
  then have nf: "0 < length ok" by (cases ok) auto
  have ep: "sum_list (map fst pk) = 6 * real (length pk)"
    using sum_list_const[of pk fst 6] p6 by simp
  have eo: "sum_list (map fst ok) = 2 * real (length ok)"
    using sum_list_const[of ok fst 2] o2 by simp
  have mp: "real_of_int (max (max (int (length pk)) 0) 1) = real (length pk)"
    using np by (cases pk) (simp_all add: max_def)
  have mf: "real_of_int (max (max (int (length ok)) 0) 1) = real (length ok)"
    using nf by (cases ok) (simp_all add: max_def)
  have ap: "sum_list (map fst pk) / real_of_int (max (max (int (length pk)) 0) 1) = 6"
    unfolding mp ep using np by simp
  have ao: "sum_list (map fst ok) / real_of_int (max (max (int (length ok)) 0) 1) = 2"
    unfolding mf eo using nf by simp
  have nf0: "max (int (length ok)) 0 \<noteq> 0" using nf by simp
  show ?thesis
    unfolding day_delta_s_def Let_def rows_def[symmetric] pk_def[symmetric] ok_def[symmetric]
      ap ao
    using nf0 by simp
qed

lemma nth_collect_map:
  assumes "\<forall>x\<in>set xs. \<exists>v. f x = Inr v" "i < length xs"
  shows "projr (collect (map f xs)) ! i = projr (f (xs ! i))"
  using assms by (simp add: collect_all_Inr)

text \<open>
  Claim C7 (scenario S6). On a day with at least one peak-fee hour and one off hour, all
  peak-fee hours consuming 6 MWh and all off hours 2 MWh, with the thresholds sorting to
  \<open>[5, 10, 15]\<close> and \<open>A(K4) = 1.0\<close>: the day's \<open>delta_s\<close> is 200, its group is K4, its
  coefficient \<open>A\<close> is 1, and the capacity fee of an hour of that day is
  \<open>6 * rate_moc\<close> (that is \<open>E * rate_moc * A\<close> in full) when the hour is a peak-fee hour and
  0 otherwise.
\<close>

theorem capacity_fee_s6_selects_K4:
  assumes len: "length pobor = length cap_peak" "length cap_peak = length day_id"
    and vals: "\<forall>j<length pobor. day_id ! j = d \<longrightarrow>
                 (cap_peak ! j = 1 \<longrightarrow> pobor ! j = 6) \<and> (cap_peak ! j = 0 \<longrightarrow> pobor ! j = 2)"
    and ex_peak: "\<exists>j<length pobor. day_id ! j = d \<and> cap_peak ! j = 1"
    and ex_off: "\<exists>j<length pobor. day_id ! j = d \<and> cap_peak ! j = 0"
    and thr: "sort k_thr = [5, 10, 15]"
    and a4: "k_A ''K4'' = Some 1"
    and i: "i < length pobor" "day_id ! i = d"
  shows "\<exists>K_info fees.
           compute_K_A_per_day pobor cap_peak day_id k_thr k_A = Inr K_info \<and>
           K_info ! i = (200, 1, ''K4'') \<and>
           capacity_fees pobor cap_peak day_id k_thr k_A sys_moc = Inr fees \<and>
           length fees = length pobor \<and>
           fees ! i = (if cap_peak ! i = 1 then 6 * sys_moc else 0) \<and>
           (cap_peak ! i = 1 \<longrightarrow> fees ! i = pobor ! i * sys_moc * 1)"
proof -
  define f where "f = day_K_A pobor cap_peak day_id [5, 10, 15] k_A"
  have all: "\<forall>x\<in>set day_id. \<exists>v. f x = Inr v"
    unfolding f_def day_K_A_def Let_def to_K_three by simp
  have c: "compute_K_A_per_day pobor cap_peak day_id k_thr k_A =
             Inr (map (\<lambda>x. projr (f x)) day_id)"
    unfolding compute_K_A_per_day_def Let_def thr f_def[symmetric]
    by (rule collect_all_Inr[OF all])
  have ds: "day_delta_s pobor cap_peak day_id d = 200"
    by (rule day_delta_s_200[OF len vals ex_peak ex_off])
  have fd: "f d = Inr (200, 1, ''K4'')"
    unfolding f_def day_K_A_def Let_def ds to_K_three using a4 by simp
  have il: "i < length day_id" using i(1) len by simp
  have ki: "map (\<lambda>x. projr (f x)) day_id ! i = (200, 1, ''K4'')"
    using il i(2) fd by simp
  define fees where "fees = map (\<lambda>i. sys_moc_fee (pobor ! i) sys_moc
      (fst (snd (map (\<lambda>x. projr (f x)) day_id ! i))) (cap_peak ! i)) [0..<length pobor]"
  have cf: "capacity_fees pobor cap_peak day_id k_thr k_A sys_moc = Inr fees"
    unfolding capacity_fees_def c fees_def by simp
  have fl: "length fees = length pobor" unfolding fees_def by simp
  have fi: "fees ! i = sys_moc_fee (pobor ! i) sys_moc 1 (cap_peak ! i)"
    unfolding fees_def using i(1) ki by simp
  have p6: "cap_peak ! i = 1 \<longrightarrow> pobor ! i = 6" using vals i by blast
  have v1: "fees ! i = (if cap_peak ! i = 1 then 6 * sys_moc else 0)"
    unfolding fi sys_moc_fee_def using p6 by simp
  have v2: "cap_peak ! i = 1 \<longrightarrow> fees ! i = pobor ! i * sys_moc * 1"
    unfolding fi sys_moc_fee_def by simp
  from c ki cf fl v1 v2 show ?thesis by blast
qed

theorem capacity_fee_s6_selects_K4_witness:
  "length [2, 6, 6, 2 :: real] = length [0, 1, 1, 0 :: int] \<and>
   sort [15, 5, 10 :: real] = [5, 10, 15] \<and> s6_k_A ''K4'' = Some 1 \<and>
   compute_K_A_per_day [2, 6, 6, 2] [0, 1, 1, 0] [7, 7, 7, 7] [15, 5, 10] s6_k_A =
     Inr [(200, 1, ''K4''), (200, 1, ''K4''), (200, 1, ''K4''), (200, 1, ''K4'')] \<and>
   capacity_fees [2, 6, 6, 2] [0, 1, 1, 0] [7, 7, 7, 7] [15, 5, 10] s6_k_A 100 =
     Inr [0, 600, 600, 0] \<and>
   (\<exists>fees. capacity_fees [2, 6, 6, 2] [0, 1, 1, 0] [7, 7, 7, 7] [15, 5, 10] s6_k_A 100 = Inr fees \<and>
      fees ! 1 = 600)"
proof -
  have h: "length [2, 6, 6, 2 :: real] = length [0, 1, 1, 0 :: int]"
    "length [0, 1, 1, 0 :: int] = length [7, 7, 7, 7 :: int]"
    "sort [15, 5, 10 :: real] = [5, 10, 15]" "s6_k_A ''K4'' = Some 1"
    "(1::nat) < length [2, 6, 6, 2 :: real]" "[7, 7, 7, 7 :: int] ! 1 = 7"
    by (simp_all add: s6_k_A_def)
  have v: "\<forall>j<length [2, 6, 6, 2 :: real]. [7, 7, 7, 7 :: int] ! j = 7 \<longrightarrow>
      ([0, 1, 1, 0 :: int] ! j = 1 \<longrightarrow> [2, 6, 6, 2 :: real] ! j = 6) \<and>
      ([0, 1, 1, 0 :: int] ! j = 0 \<longrightarrow> [2, 6, 6, 2 :: real] ! j = 2)"
    by (simp add: less_Suc_eq numeral_eq_Suc all_conj_distrib)
  have e1: "\<exists>j<length [2, 6, 6, 2 :: real]. [7, 7, 7, 7 :: int] ! j = 7 \<and> [0, 1, 1, 0 :: int] ! j = 1"
    by (rule exI[of _ 1]) simp
  have e0: "\<exists>j<length [2, 6, 6, 2 :: real]. [7, 7, 7, 7 :: int] ! j = 7 \<and> [0, 1, 1, 0 :: int] ! j = 0"
    by (rule exI[of _ 0]) simp
  from capacity_fee_s6_selects_K4[where pobor="[2, 6, 6, 2]" and cap_peak="[0, 1, 1, 0]"
      and day_id="[7, 7, 7, 7]" and d=7 and k_thr="[15, 5, 10]" and k_A=s6_k_A and i=1
      and sys_moc=100, OF h(1,2) v e1 e0 h(3,4,5,6)]
  have w: "\<exists>fees. capacity_fees [2, 6, 6, 2] [0, 1, 1, 0] [7, 7, 7, 7] [15, 5, 10] s6_k_A 100 = Inr fees \<and>
      fees ! 1 = 600"
    by auto
  have c1: "compute_K_A_per_day [2, 6, 6, 2] [0, 1, 1, 0] [7, 7, 7, 7] [15, 5, 10] s6_k_A =
     Inr [(200, 1, ''K4''), (200, 1, ''K4''), (200, 1, ''K4''), (200, 1, ''K4'')]"
    by (simp add: compute_K_A_per_day_def day_K_A_def day_delta_s_def day_rows_def to_K_def
        s6_k_A_def Let_def)
  have c2: "capacity_fees [2, 6, 6, 2] [0, 1, 1, 0] [7, 7, 7, 7] [15, 5, 10] s6_k_A 100 =
     Inr [0, 600, 600, 0]"
    unfolding capacity_fees_def c1 by (simp add: sys_moc_fee_def upt_rec[of 0] upt_rec[of "Suc _"] numeral_eq_Suc)
  from h w c1 c2 show ?thesis by blast
qed

section \<open>Stage 02: proofs\<close>

subsection \<open>Daily pairing\<close>

lemma insort_key_lex:
  fixes f :: "nat \<Rightarrow> 'k::linorder"
  assumes "sorted_wrt (\<lambda>a b. f a < f b \<or> (f a = f b \<and> a < b)) ys"
    and "\<forall>y\<in>set ys. x < y"
  shows "sorted_wrt (\<lambda>a b. f a < f b \<or> (f a = f b \<and> a < b)) (insort_key f x ys)"
  using assms
proof (induction ys)
  case Nil
  then show ?case by simp
next
  case (Cons y ys)
  show ?case
  proof (cases "f x \<le> f y")
    case True
    have "\<forall>z\<in>set (y # ys). f x < f z \<or> (f x = f z \<and> x < z)"
      using Cons.prems True by fastforce
    with Cons.prems(1) True show ?thesis by simp
  next
    case False
    have ih: "sorted_wrt (\<lambda>a b. f a < f b \<or> (f a = f b \<and> a < b)) (insort_key f x ys)"
      using Cons.IH Cons.prems by simp
    have "\<forall>z\<in>set (insort_key f x ys). f y < f z \<or> (f y = f z \<and> y < z)"
      using Cons.prems False by (auto simp: set_insort_key)
    with ih False show ?thesis by simp
  qed
qed

lemma sort_key_lex:
  fixes f :: "nat \<Rightarrow> 'k::linorder"
  shows "sorted_wrt (<) xs \<Longrightarrow>
    sorted_wrt (\<lambda>a b. f a < f b \<or> (f a = f b \<and> a < b)) (sort_key f xs)"
proof (induction xs)
  case Nil
  then show ?case by simp
next
  case (Cons x xs)
  have "sorted_wrt (\<lambda>a b. f a < f b \<or> (f a = f b \<and> a < b)) (insort_key f x (sort_key f xs))"
    using Cons by (intro insort_key_lex) simp_all
  then show ?case by simp
qed

lemma insort_key_map:
  "map g (insort_key (\<lambda>j. f (g j)) x ys) = insort_key f (g x) (map g ys)"
  by (induction ys) simp_all

lemma sort_key_map:
  "map g (sort_key (\<lambda>j. f (g j)) xs) = sort_key f (map g xs)"
  by (induction xs) (simp_all add: insort_key_map)

lemma insort_key_cong_set:
  "f x = g x \<Longrightarrow> \<forall>y\<in>set ys. f y = g y \<Longrightarrow> insort_key f x ys = insort_key g x ys"
  by (induction ys) simp_all

lemma sort_key_cong_set:
  "\<forall>y\<in>set xs. f y = g y \<Longrightarrow> sort_key f xs = sort_key g xs"
proof (induction xs)
  case Nil
  then show ?case by simp
next
  case (Cons x xs)
  have "insort_key f x (sort_key g xs) = insort_key g x (sort_key g xs)"
    using Cons.prems by (intro insort_key_cong_set) simp_all
  with Cons show ?case by simp
qed

lemma argsort_stable_nth:
  "map (\<lambda>j. idx ! j) (argsort_stable (map f idx)) = sort_key (\<lambda>i. sort_rank (f i)) idx"
proof -
  have "sort_key (\<lambda>j. sort_rank (map f idx ! j)) [0..<length idx]
          = sort_key (\<lambda>j. sort_rank (f (idx ! j))) [0..<length idx]"
    by (rule sort_key_cong_set) simp
  then have "map (\<lambda>j. idx ! j) (argsort_stable (map f idx))
               = sort_key (\<lambda>i. sort_rank (f i)) (map (\<lambda>j. idx ! j) [0..<length idx])"
    by (simp add: argsort_stable_def sort_key_map[of "\<lambda>j. idx ! j" "\<lambda>i. sort_rank (f i)"])
  then show ?thesis by (simp add: map_nth)
qed

lemma sort_insort_key: "sort (insort_key f x ys) = insort x (sort ys)"
  by (induction ys) (simp_all add: insort_left_comm)

lemma sort_sort_key: "sort (sort_key f xs) = sort xs"
  by (induction xs) (simp_all add: sort_insort_key)

lemma sort_rev_upt: "sort (rev [0..<n]) = [0..<n]"
  by (rule sorted_distinct_set_unique) simp_all

lemma argsort_stable_ok: "argsort_ok argsort_stable"
  by (simp add: argsort_ok_def is_argsort_def argsort_stable_def sort_sort_key)

lemma argsort_ties_desc_ok: "argsort_ok argsort_ties_desc"
  by (simp add: argsort_ok_def is_argsort_def argsort_ties_desc_def sort_sort_key sort_rev_upt)

lemma sort_rank_inj: "sort_rank a = sort_rank b \<longleftrightarrow> a = b"
  by (cases a; cases b) simp_all

lemma is_argsort_unique:
  assumes a: "is_argsort xs js" and b: "is_argsort xs ks" and d: "distinct xs"
  shows "js = ks"
proof -
  let ?f = "\<lambda>j. sort_rank (xs ! j)"
  have setj: "set js = {0..<length xs}" and setk: "set ks = {0..<length xs}"
    using a b set_sort[of "\<lambda>x. x" js] set_sort[of "\<lambda>x. x" ks] unfolding is_argsort_def by auto
  have dj: "distinct js" and dk: "distinct ks"
    using a b distinct_sort[of "\<lambda>x. x" js] distinct_sort[of "\<lambda>x. x" ks]
    unfolding is_argsort_def by auto
  have inj: "inj_on ?f {0..<length xs}"
    using d by (auto simp: inj_on_def sort_rank_inj nth_eq_iff_index_eq)
  have "map ?f js = map ?f ks"
  proof (rule sorted_distinct_set_unique)
    show "sorted (map ?f js)" "sorted (map ?f ks)" using a b by (simp_all add: is_argsort_def)
    show "distinct (map ?f js)" using dj inj setj by (simp add: distinct_map)
    show "distinct (map ?f ks)" using dk inj setk by (simp add: distinct_map)
    show "set (map ?f js) = set (map ?f ks)" using setj setk by simp
  qed
  then show ?thesis
    using inj setj setk by (simp add: inj_on_map_eq_map)
qed

lemma argsort_tie_free:
  assumes "argsort_ok a" "argsort_ok b" "distinct xs"
  shows "a xs = b xs"
  using assms is_argsort_unique unfolding argsort_ok_def by blast

lemma find_first_sorted:
  "find P xs = Some x \<Longrightarrow> sorted_wrt R xs \<Longrightarrow> y \<in> set xs \<Longrightarrow> P y \<Longrightarrow> y \<noteq> x \<Longrightarrow> R x y"
  by (induction xs) (auto split: if_splits)

lemma take_before_rest:
  assumes "sorted_wrt R r" "a \<in> set (take k r)" "b \<in> set r - set (take k r)"
  shows "R a b"
proof -
  have "sorted_wrt R (take k r @ drop k r)" using assms(1) by simp
  moreover have "b \<in> set (drop k r)"
    using assms(3) by (metis DiffD1 DiffD2 Un_iff append_take_drop_id set_append)
  ultimately show ?thesis using assms(2) by (simp add: sorted_wrt_append del: append_take_drop_id)
qed

lemma in_day_idx: "x \<in> set (day_idx dk d) \<longleftrightarrow> x < length dk \<and> dk ! x = d"
  by (auto simp: day_idx_def)

lemma day_idx_sorted: "sorted_wrt (<) (day_idx dk d)"
  unfolding day_idx_def by (rule sorted_wrt_filter) simp

lemma day_idx_distinct: "distinct (day_idx dk d)"
  by (simp add: day_idx_def)

lemma cand_high_eq:
  "0 \<le> k \<Longrightarrow> cand_high argsort_stable p k idx
     = take (nat k) (sort_key (\<lambda>i. sort_rank (flt_neg (p ! i))) idx)"
  by (simp add: cand_high_def py_take_def argsort_stable_nth)

lemma cand_low_eq:
  "0 \<le> k \<Longrightarrow> cand_low argsort_stable p k idx
     = sort (take (nat k) (sort_key (\<lambda>i. sort_rank (p ! i)) idx))"
  by (simp add: cand_low_def py_take_def argsort_stable_nth)

lemma take_sort_key_selects:
  fixes f :: "nat \<Rightarrow> 'k::linorder"
  assumes k: "0 \<le> k" and s: "sorted_wrt (<) idx"
  shows "selects_first (\<lambda>a b. f a < f b \<or> (f a = f b \<and> a < b)) k idx
           (set (take (nat k) (sort_key f idx)))"
proof -
  let ?r = "sort_key f idx"
  have d: "distinct ?r" using s by (simp add: strict_sorted_iff)
  have sub: "set (take (nat k) ?r) \<subseteq> set idx"
    using set_take_subset[of "nat k" ?r] by simp
  have "card (set (take (nat k) ?r)) = length (take (nat k) ?r)"
    using d by (intro distinct_card distinct_take)
  then have "card (set (take (nat k) ?r)) = min (length idx) (nat k)" by simp
  then have c: "int (card (set (take (nat k) ?r))) = min k (int (length idx))"
    using k by arith
  have b: "\<forall>a\<in>set (take (nat k) ?r). \<forall>b\<in>set idx - set (take (nat k) ?r).
             f a < f b \<or> (f a = f b \<and> a < b)"
  proof (intro ballI)
    fix a b assume a: "a \<in> set (take (nat k) ?r)" and b: "b \<in> set idx - set (take (nat k) ?r)"
    from b have b': "b \<in> set ?r - set (take (nat k) ?r)" by simp
    from take_before_rest[OF sort_key_lex[OF s, of f] a b']
    show "f a < f b \<or> (f a = f b \<and> a < b)" .
  qed
  from sub c b show ?thesis unfolding selects_first_def by blast
qed

lemma cand_low_selects:
  assumes "0 \<le> k"
  shows "selects_first (cheaper p) k (day_idx dk d) (set (cand_low argsort_stable p k (day_idx dk d)))"
proof -
  have e: "cheaper p = (\<lambda>a b. sort_rank (p ! a) < sort_rank (p ! b)
                                \<or> (sort_rank (p ! a) = sort_rank (p ! b) \<and> a < b))"
    by (intro ext) (simp add: cheaper_def)
  show ?thesis
    unfolding e using take_sort_key_selects[OF assms day_idx_sorted, of "\<lambda>i. sort_rank (p ! i)" dk d]
    by (simp add: cand_low_eq[OF assms])
qed

lemma cand_high_selects:
  assumes "0 \<le> k"
  shows "selects_first (dearer p) k (day_idx dk d) (set (cand_high argsort_stable p k (day_idx dk d)))"
proof -
  have e: "dearer p = (\<lambda>a b. sort_rank (flt_neg (p ! a)) < sort_rank (flt_neg (p ! b))
                               \<or> (sort_rank (flt_neg (p ! a)) = sort_rank (flt_neg (p ! b)) \<and> a < b))"
    by (intro ext) (simp add: dearer_def)
  show ?thesis
    unfolding e using take_sort_key_selects[OF assms day_idx_sorted, of "\<lambda>i. sort_rank (flt_neg (p ! i))" dk d]
    by (simp add: cand_high_eq[OF assms])
qed

lemma cand_low_sorted:
  assumes "0 \<le> k"
  shows "sorted_wrt (<) (cand_low argsort_stable p k (day_idx dk d))"
  using day_idx_distinct[of dk d]
  by (simp add: cand_low_eq[OF assms] strict_sorted_iff)

lemma cand_high_sorted:
  assumes "0 \<le> k"
  shows "sorted_wrt (dearer p) (cand_high argsort_stable p k (day_idx dk d))"
proof -
  have e: "dearer p = (\<lambda>a b. sort_rank (flt_neg (p ! a)) < sort_rank (flt_neg (p ! b))
                               \<or> (sort_rank (flt_neg (p ! a)) = sort_rank (flt_neg (p ! b)) \<and> a < b))"
    by (intro ext) (simp add: dearer_def)
  have "sorted_wrt (dearer p) (sort_key (\<lambda>i. sort_rank (flt_neg (p ! i))) (day_idx dk d))"
    unfolding e by (rule sort_key_lex[OF day_idx_sorted])
  then show ?thesis
    by (simp add: cand_high_eq[OF assms] sorted_wrt_take)
qed

lemma cand_low_subset: "0 \<le> k \<Longrightarrow> set (cand_low argsort_stable p k (day_idx dk d)) \<subseteq> set (day_idx dk d)"
  using cand_low_selects[of k p dk d] by (simp add: selects_first_def)

lemma cand_high_subset: "0 \<le> k \<Longrightarrow> set (cand_high argsort_stable p k (day_idx dk d)) \<subseteq> set (day_idx dk d)"
  using cand_high_selects[of k p dk d] by (simp add: selects_first_def)

lemma pairs_added_mem:
  "(l, h) \<in> set (pairs_added highs lows used) \<Longrightarrow>
     l \<in> set lows \<and> h \<in> set highs \<and> h \<notin> used \<and> l < h"
proof (induction lows arbitrary: used)
  case Nil
  then show ?case by simp
next
  case (Cons a lows)
  show ?case
  proof (cases "find (\<lambda>h. h \<notin> used \<and> h > a) highs")
    case None
    with Cons show ?thesis by auto
  next
    case (Some x)
    then have x: "x \<in> set highs" "x \<notin> used" "a < x"
      by (auto simp: find_Some_iff)
    from Cons.prems Some have "(l, h) = (a, x) \<or> (l, h) \<in> set (pairs_added highs lows (insert x used))"
      by simp
    then show ?thesis
    proof
      assume "(l, h) = (a, x)" with x show ?thesis by simp
    next
      assume "(l, h) \<in> set (pairs_added highs lows (insert x used))"
      from Cons.IH[OF this] show ?thesis by simp
    qed
  qed
qed

lemma pairs_added_fst_distinct:
  "distinct lows \<Longrightarrow> distinct (map fst (pairs_added highs lows used))"
proof (induction lows arbitrary: used)
  case Nil
  then show ?case by simp
next
  case (Cons a lows)
  have n: "a \<notin> fst ` set (pairs_added highs lows u)" for u
    using Cons.prems pairs_added_mem[of _ _ highs lows u] by auto
  show ?case
    using Cons n by (cases "find (\<lambda>h. h \<notin> used \<and> h > a) highs") simp_all
qed

lemma pairs_added_snd_distinct:
  "distinct (map snd (pairs_added highs lows used))"
proof (induction lows arbitrary: used)
  case Nil
  then show ?case by simp
next
  case (Cons a lows)
  have n: "x \<notin> snd ` set (pairs_added highs lows (insert x used))" for x
    using pairs_added_mem[of _ x highs lows "insert x used"] by auto
  show ?case
    using Cons n by (cases "find (\<lambda>h. h \<notin> used \<and> h > a) highs") simp_all
qed

lemma pairs_added_snd_inj:
  assumes "(a, h) \<in> set (pairs_added highs lows used)" "(b, h) \<in> set (pairs_added highs lows used)"
  shows "a = b"
proof -
  have "inj_on snd (set (pairs_added highs lows used))"
    using pairs_added_snd_distinct[of highs lows used] by (simp add: distinct_map)
  from inj_onD[OF this _ assms] show ?thesis by simp
qed

lemma pairs_added_best:
  assumes "sorted_wrt (<) lows" "sorted_wrt R highs"
    and "(l, h) \<in> set (pairs_added highs lows used)"
    and "h' \<in> set highs" "l < h'" "h' \<notin> used" "h' \<noteq> h"
    and "\<forall>(l2, h2)\<in>set (pairs_added highs lows used). l2 < l \<longrightarrow> h2 \<noteq> h'"
  shows "R h h'"
  using assms
proof (induction lows arbitrary: used)
  case Nil
  then show ?case by simp
next
  case (Cons a lows)
  have gt: "\<forall>x\<in>set lows. a < x" and sl: "sorted_wrt (<) lows" using Cons.prems(1) by simp_all
  show ?case
  proof (cases "find (\<lambda>h. h \<notin> used \<and> h > a) highs")
    case None
    with Cons.prems have m: "(l, h) \<in> set (pairs_added highs lows used)"
      and q: "\<forall>(l2, h2)\<in>set (pairs_added highs lows used). l2 < l \<longrightarrow> h2 \<noteq> h'" by simp_all
    from Cons.IH[OF sl Cons.prems(2) m Cons.prems(4,5,6,7) q] show ?thesis .
  next
    case (Some x)
    from Cons.prems(3) Some
    have "(l, h) = (a, x) \<or> (l, h) \<in> set (pairs_added highs lows (insert x used))" by simp
    then show ?thesis
    proof
      assume "(l, h) = (a, x)"
      then have e: "l = a" "h = x" by simp_all
      from find_first_sorted[OF Some Cons.prems(2) Cons.prems(4)] Cons.prems(5,6,7) e
      show ?thesis by simp
    next
      assume m: "(l, h) \<in> set (pairs_added highs lows (insert x used))"
      from pairs_added_mem[OF m] gt have al: "a < l" by simp
      from Cons.prems(8) Some al have "x \<noteq> h'" by auto
      with Cons.prems(6) have u: "h' \<notin> insert x used" by simp
      from Cons.prems(8) Some
      have q: "\<forall>(l2, h2)\<in>set (pairs_added highs lows (insert x used)). l2 < l \<longrightarrow> h2 \<noteq> h'"
        by auto
      from Cons.IH[OF sl Cons.prems(2) m Cons.prems(4,5) u Cons.prems(7) q] show ?thesis .
    qed
  qed
qed

lemma pairs_added_skip:
  assumes "sorted_wrt (<) lows" "l \<in> set lows" "l \<notin> fst ` set (pairs_added highs lows used)"
    and "h' \<in> set highs" "l < h'"
  shows "h' \<in> used \<or> (\<exists>l2<l. (l2, h') \<in> set (pairs_added highs lows used))"
  using assms
proof (induction lows arbitrary: used)
  case Nil
  then show ?case by simp
next
  case (Cons a lows)
  have gt: "\<forall>x\<in>set lows. a < x" and sl: "sorted_wrt (<) lows" using Cons.prems(1) by simp_all
  show ?case
  proof (cases "find (\<lambda>h. h \<notin> used \<and> h > a) highs")
    case None
    show ?thesis
    proof (cases "l = a")
      case True
      from None Cons.prems(4,5) True show ?thesis by (auto simp: find_None_iff)
    next
      case False
      with Cons.prems(2) have m: "l \<in> set lows" by simp
      from Cons.prems(3) None have n: "l \<notin> fst ` set (pairs_added highs lows used)" by simp
      from Cons.IH[OF sl m n Cons.prems(4,5)] None show ?thesis by simp
    qed
  next
    case (Some x)
    from Cons.prems(3) Some have la: "l \<noteq> a"
      and n: "l \<notin> fst ` set (pairs_added highs lows (insert x used))" by auto
    with Cons.prems(2) have m: "l \<in> set lows" by simp
    with gt have al: "a < l" by simp
    from Cons.IH[OF sl m n Cons.prems(4,5)]
    have "h' \<in> insert x used \<or> (\<exists>l2<l. (l2, h') \<in> set (pairs_added highs lows (insert x used)))" .
    then show ?thesis using Some al by auto
  qed
qed

lemma pair_lows_pairs_added:
  "distinct lows \<Longrightarrow>
   pair_lows highs lows (used, kl, kh) =
     (used \<union> snd ` set (pairs_added highs lows used),
      kl ++ map_of (pairs_added highs lows used),
      kh ++ map_of (map (\<lambda>(l, h). (h, l)) (pairs_added highs lows used)))"
proof (induction lows arbitrary: used kl kh)
  case Nil
  then show ?case by simp
next
  case (Cons a lows)
  have d: "distinct lows" and an: "a \<notin> set lows" using Cons.prems by simp_all
  show ?case
  proof (cases "find (\<lambda>h. h \<notin> used \<and> h > a) highs")
    case None
    with Cons.IH[OF d] show ?thesis by simp
  next
    case (Some x)
    let ?A = "pairs_added highs lows (insert x used)"
    have n1: "map_of ?A a = None"
      using an pairs_added_mem[of a _ highs lows "insert x used"]
      by (auto simp: map_of_eq_None_iff)
    have n2: "map_of (map (\<lambda>(l, h). (h, l)) ?A) x = None"
      using pairs_added_mem[of _ x highs lows "insert x used"]
      by (auto simp: map_of_eq_None_iff)
    have step: "pair_lows highs (a # lows) (used, kl, kh)
                  = pair_lows highs lows (insert x used, kl(a \<mapsto> x), kh(x \<mapsto> a))"
      using Some by simp
    have A: "pairs_added highs (a # lows) used = (a, x) # ?A"
      using Some by simp
    have s: "insert x used \<union> snd ` set ?A = used \<union> snd ` set ((a, x) # ?A)"
      by auto
    have k1: "kl(a \<mapsto> x) ++ map_of ?A = kl ++ map_of ((a, x) # ?A)"
      using n1 by (intro ext) (simp add: map_add_def split: option.split)
    have k2: "kh(x \<mapsto> a) ++ map_of (map (\<lambda>(l, h). (h, l)) ?A)
                = kh ++ map_of (map (\<lambda>(l, h). (h, l)) ((a, x) # ?A))"
      using n2 by (intro ext) (simp add: map_add_def split: option.split)
    have "pair_lows highs (a # lows) (used, kl, kh)
            = (insert x used \<union> snd ` set ?A, kl(a \<mapsto> x) ++ map_of ?A,
               kh(x \<mapsto> a) ++ map_of (map (\<lambda>(l, h). (h, l)) ?A))"
      unfolding step by (rule Cons.IH[OF d])
    then show ?thesis unfolding s k1 k2 A .
  qed
qed

lemma day_pairs_mem:
  assumes "0 \<le> k" "(l, h) \<in> set (day_pairs argsort_stable dk pim pex k d)"
  shows "l \<in> set (cand_low argsort_stable pim k (day_idx dk d))" "h \<in> set (cand_high argsort_stable pex k (day_idx dk d))"
    "l < h" "l < length dk" "dk ! l = d" "h < length dk" "dk ! h = d"
proof -
  from pairs_added_mem[OF assms(2)[unfolded day_pairs_def]]
  show a: "l \<in> set (cand_low argsort_stable pim k (day_idx dk d))"
    and b: "h \<in> set (cand_high argsort_stable pex k (day_idx dk d))" and "l < h" by simp_all
  from a cand_low_subset[OF assms(1), of pim dk d] have "l \<in> set (day_idx dk d)" by blast
  then show "l < length dk" "dk ! l = d" by (simp_all add: in_day_idx)
  from b cand_high_subset[OF assms(1), of pex dk d] have "h \<in> set (day_idx dk d)" by blast
  then show "h < length dk" "dk ! h = d" by (simp_all add: in_day_idx)
qed

lemma day_pairs_low_key:
  assumes "0 \<le> k" "map_of (day_pairs argsort_stable dk pim pex k d) x = Some h"
  shows "x < length dk \<and> dk ! x = d"
  using day_pairs_mem(4,5)[OF assms(1) map_of_SomeD[OF assms(2)]] by simp

lemma swap_fst: "map fst (map (\<lambda>(l, h). (h, l)) A) = map snd A"
  by (induction A) auto

lemma swap_mem: "(h, l) \<in> set (map (\<lambda>(l, h). (h, l)) A) \<longleftrightarrow> (l, h) \<in> set A"
  by auto

lemma day_pairs_high_key:
  assumes "0 \<le> k" "map_of (map (\<lambda>(l, h). (h, l)) (day_pairs argsort_stable dk pim pex k d)) x = Some l"
  shows "x < length dk \<and> dk ! x = d"
proof -
  from map_of_SomeD[OF assms(2)] have "(l, x) \<in> set (day_pairs argsort_stable dk pim pex k d)"
    by (simp only: swap_mem)
  from day_pairs_mem(6,7)[OF assms(1) this] show ?thesis by simp
qed

lemma pair_day_eq:
  assumes "0 \<le> k"
  shows "pair_day argsort_stable dk pim pex k d (kl, kh) =
           (kl ++ map_of (day_pairs argsort_stable dk pim pex k d),
            kh ++ map_of (map (\<lambda>(l, h). (h, l)) (day_pairs argsort_stable dk pim pex k d)))"
proof -
  have "distinct (cand_low argsort_stable pim k (day_idx dk d))"
    using cand_low_sorted[OF assms, of pim dk d] by (simp add: strict_sorted_iff)
  from pair_lows_pairs_added[OF this, of "cand_high argsort_stable pex k (day_idx dk d)" "{}" kl kh]
  show ?thesis by (simp add: pair_day_def day_pairs_def Let_def)
qed

lemma fold_pair_day:
  assumes "0 \<le> k"
  shows "fold (pair_day argsort_stable dk pim pex k) ds (kl, kh) =
    (\<lambda>x. case (if x < length dk \<and> dk ! x \<in> set ds
                then map_of (day_pairs argsort_stable dk pim pex k (dk ! x)) x else None) of
            None \<Rightarrow> kl x | Some h \<Rightarrow> Some h,
     \<lambda>x. case (if x < length dk \<and> dk ! x \<in> set ds
                then map_of (map (\<lambda>(l, h). (h, l)) (day_pairs argsort_stable dk pim pex k (dk ! x))) x else None) of
            None \<Rightarrow> kh x | Some l \<Rightarrow> Some l)"
proof (induction ds arbitrary: kl kh)
  case Nil
  show ?case by simp
next
  case (Cons d ds)
  have s: "fold (pair_day argsort_stable dk pim pex k) (d # ds) (kl, kh)
         = fold (pair_day argsort_stable dk pim pex k) ds
             (kl ++ map_of (day_pairs argsort_stable dk pim pex k d),
              kh ++ map_of (map (\<lambda>(l, h). (h, l)) (day_pairs argsort_stable dk pim pex k d)))"
    by (simp add: pair_day_eq[OF assms])
  have a: "(case (if x < length dk \<and> dk ! x \<in> set ds
                then map_of (day_pairs argsort_stable dk pim pex k (dk ! x)) x else None) of
            None \<Rightarrow> (kl ++ map_of (day_pairs argsort_stable dk pim pex k d)) x | Some h \<Rightarrow> Some h)
        = (case (if x < length dk \<and> dk ! x \<in> set (d # ds)
                then map_of (day_pairs argsort_stable dk pim pex k (dk ! x)) x else None) of
            None \<Rightarrow> kl x | Some h \<Rightarrow> Some h)" for x
    using day_pairs_low_key[OF assms, of dk pim pex d x]
    by (cases "map_of (day_pairs argsort_stable dk pim pex k d) x") (auto simp: map_add_def split: option.split)
  have b: "(case (if x < length dk \<and> dk ! x \<in> set ds
                then map_of (map (\<lambda>(l, h). (h, l)) (day_pairs argsort_stable dk pim pex k (dk ! x))) x else None) of
            None \<Rightarrow> (kh ++ map_of (map (\<lambda>(l, h). (h, l)) (day_pairs argsort_stable dk pim pex k d))) x | Some h \<Rightarrow> Some h)
        = (case (if x < length dk \<and> dk ! x \<in> set (d # ds)
                then map_of (map (\<lambda>(l, h). (h, l)) (day_pairs argsort_stable dk pim pex k (dk ! x))) x else None) of
            None \<Rightarrow> kh x | Some h \<Rightarrow> Some h)" for x
    using day_pairs_high_key[OF assms, of dk pim pex d x]
    by (cases "map_of (map (\<lambda>(l, h). (h, l)) (day_pairs argsort_stable dk pim pex k d)) x")
       (auto simp: map_add_def split: option.split)
  show ?case unfolding s Cons.IH a b ..
qed

lemma build_kl:
  assumes "0 \<le> k"
  shows "fst (build_daily_pairs argsort_stable dk pim pex k) x =
           (if x < length dk then map_of (day_pairs argsort_stable dk pim pex k (dk ! x)) x else None)"
  by (simp add: build_daily_pairs_def fold_pair_day[OF assms] split: option.split)

lemma build_kh:
  assumes "0 \<le> k"
  shows "snd (build_daily_pairs argsort_stable dk pim pex k) x =
           (if x < length dk
            then map_of (map (\<lambda>(l, h). (h, l)) (day_pairs argsort_stable dk pim pex k (dk ! x))) x else None)"
  by (simp add: build_daily_pairs_def fold_pair_day[OF assms] split: option.split)

lemma build_kl_iff:
  assumes "0 \<le> k"
  shows "fst (build_daily_pairs argsort_stable dk pim pex k) l = Some h
           \<longleftrightarrow> l < length dk \<and> (l, h) \<in> set (day_pairs argsort_stable dk pim pex k (dk ! l))"
proof -
  have "distinct (cand_low argsort_stable pim k (day_idx dk (dk ! l)))"
    using cand_low_sorted[OF assms, of pim dk "dk ! l"] by (simp add: strict_sorted_iff)
  then have "distinct (map fst (day_pairs argsort_stable dk pim pex k (dk ! l)))"
    unfolding day_pairs_def by (rule pairs_added_fst_distinct)
  then show ?thesis by (simp add: build_kl[OF assms])
qed

lemma build_kh_iff:
  assumes "0 \<le> k"
  shows "snd (build_daily_pairs argsort_stable dk pim pex k) h = Some l
           \<longleftrightarrow> h < length dk \<and> (l, h) \<in> set (day_pairs argsort_stable dk pim pex k (dk ! h))"
proof -
  have "distinct (map fst (map (\<lambda>(l, h). (h, l)) (day_pairs argsort_stable dk pim pex k (dk ! h))))"
    unfolding swap_fst day_pairs_def by (rule pairs_added_snd_distinct)
  then have "map_of (map (\<lambda>(l, h). (h, l)) (day_pairs argsort_stable dk pim pex k (dk ! h))) h = Some l
           \<longleftrightarrow> (h, l) \<in> set (map (\<lambda>(l, h). (h, l)) (day_pairs argsort_stable dk pim pex k (dk ! h)))"
    by simp
  then show ?thesis by (simp only: build_kh[OF assms] swap_mem split: if_splits) simp
qed

lemma unused_at_pairs:
  assumes k: "0 \<le> k" and l: "l \<in> set (day_idx dk d)"
  shows "unused_at (fst (build_daily_pairs argsort_stable dk pim pex k)) (set (cand_low argsort_stable pim k (day_idx dk d))) l h
           \<longleftrightarrow> (\<forall>l2<l. (l2, h) \<notin> set (day_pairs argsort_stable dk pim pex k d))"
proof
  assume u: "unused_at (fst (build_daily_pairs argsort_stable dk pim pex k)) (set (cand_low argsort_stable pim k (day_idx dk d))) l h"
  show "\<forall>l2<l. (l2, h) \<notin> set (day_pairs argsort_stable dk pim pex k d)"
  proof (intro allI impI notI)
    fix l2 assume lt: "l2 < l" and m: "(l2, h) \<in> set (day_pairs argsort_stable dk pim pex k d)"
    from day_pairs_mem(1,4,5)[OF k m]
    have "l2 \<in> set (cand_low argsort_stable pim k (day_idx dk d))" "l2 < length dk" "dk ! l2 = d" by simp_all
    moreover from this m have "fst (build_daily_pairs argsort_stable dk pim pex k) l2 = Some h"
      by (simp add: build_kl_iff[OF k])
    ultimately show False using u lt unfolding unused_at_def by blast
  qed
next
  assume a: "\<forall>l2<l. (l2, h) \<notin> set (day_pairs argsort_stable dk pim pex k d)"
  show "unused_at (fst (build_daily_pairs argsort_stable dk pim pex k)) (set (cand_low argsort_stable pim k (day_idx dk d))) l h"
    unfolding unused_at_def
  proof (intro ballI impI notI)
    fix l2 assume m: "l2 \<in> set (cand_low argsort_stable pim k (day_idx dk d))" and lt: "l2 < l"
      and e: "fst (build_daily_pairs argsort_stable dk pim pex k) l2 = Some h"
    from m cand_low_subset[OF k, of pim dk d] have "l2 \<in> set (day_idx dk d)" by blast
    then have "dk ! l2 = d" by (simp add: in_day_idx)
    with e have "(l2, h) \<in> set (day_pairs argsort_stable dk pim pex k d)"
      by (simp add: build_kl_iff[OF k])
    with a lt show False by blast
  qed
qed

lemma build_greedy:
  assumes k: "0 \<le> k"
  shows "greedy_pairing pex (set (cand_low argsort_stable pim k (day_idx dk d)))
           (set (cand_high argsort_stable pex k (day_idx dk d))) (fst (build_daily_pairs argsort_stable dk pim pex k))"
  unfolding greedy_pairing_def
proof (intro ballI)
  fix l assume lL: "l \<in> set (cand_low argsort_stable pim k (day_idx dk d))"
  let ?kl = "fst (build_daily_pairs argsort_stable dk pim pex k)"
  let ?L = "set (cand_low argsort_stable pim k (day_idx dk d))"
  let ?H = "set (cand_high argsort_stable pex k (day_idx dk d))"
  let ?A = "day_pairs argsort_stable dk pim pex k d"
  from lL cand_low_subset[OF k, of pim dk d] have li: "l \<in> set (day_idx dk d)" by blast
  then have ld: "l < length dk" "dk ! l = d" by (simp_all add: in_day_idx)
  have kl_iff: "?kl l = Some h \<longleftrightarrow> (l, h) \<in> set ?A" for h
    using ld by (simp add: build_kl_iff[OF k])
  note un = unused_at_pairs[OF k li, of pim pex]
  show "case ?kl l of
          None \<Rightarrow> \<forall>h'\<in>?H. l < h' \<longrightarrow> \<not> unused_at ?kl ?L l h'
        | Some h \<Rightarrow> h \<in> ?H \<and> l < h \<and> unused_at ?kl ?L l h \<and>
            (\<forall>h'\<in>?H. l < h' \<and> unused_at ?kl ?L l h' \<and> h' \<noteq> h \<longrightarrow> dearer pex h h')"
  proof (cases "?kl l")
    case None
    have nf: "l \<notin> fst ` set ?A"
    proof
      assume "l \<in> fst ` set ?A"
      then obtain h where "(l, h) \<in> set ?A" by force
      with kl_iff[of h] None show False by simp
    qed
    have "\<not> unused_at ?kl ?L l h'" if h': "h' \<in> ?H" "l < h'" for h'
    proof -
      from pairs_added_skip[OF cand_low_sorted[OF k] lL nf[unfolded day_pairs_def] h']
      have "\<exists>l2<l. (l2, h') \<in> set ?A" by (simp add: day_pairs_def)
      then show ?thesis unfolding un by blast
    qed
    with None show ?thesis by simp
  next
    case (Some h)
    then have m: "(l, h) \<in> set ?A" by (simp add: kl_iff)
    from day_pairs_mem(2,3)[OF k m] have hH: "h \<in> ?H" "l < h" by simp_all
    have u: "unused_at ?kl ?L l h"
      unfolding un
    proof (intro allI impI notI)
      fix l2 assume "l2 < l" "(l2, h) \<in> set ?A"
      with pairs_added_snd_inj[of l2 h _ _ "{}" l] m show False
        by (simp add: day_pairs_def)
    qed
    have b: "dearer pex h h'" if h': "h' \<in> ?H" "l < h'" "unused_at ?kl ?L l h'" "h' \<noteq> h" for h'
    proof -
      from h'(3) have q: "\<forall>(l2, h2)\<in>set ?A. l2 < l \<longrightarrow> h2 \<noteq> h'"
        unfolding un by blast
      from pairs_added_best[OF cand_low_sorted[OF k] cand_high_sorted[OF k]
          m[unfolded day_pairs_def] h'(1,2) _ h'(4) q[unfolded day_pairs_def]]
      show ?thesis by simp
    qed
    from hH u b Some show ?thesis by simp
  qed
qed

lemma flt_neg_inj: "flt_neg a = flt_neg b \<longleftrightarrow> a = b"
  by (cases a; cases b) simp_all

lemma cand_low_tie_free:
  assumes "argsort_ok a" "argsort_ok b" "distinct (map (\<lambda>i. p ! i) idx)"
  shows "cand_low a p k idx = cand_low b p k idx"
  unfolding cand_low_def argsort_tie_free[OF assms] ..

lemma cand_high_tie_free:
  assumes "argsort_ok a" "argsort_ok b" "distinct (map (\<lambda>i. p ! i) idx)"
  shows "cand_high a p k idx = cand_high b p k idx"
proof -
  have d: "distinct (map (\<lambda>i. flt_neg (p ! i)) idx)"
    using assms(3) by (auto simp: distinct_map inj_on_def flt_neg_inj)
  show ?thesis
    unfolding cand_high_def argsort_tie_free[OF assms(1,2) d] ..
qed

text \<open>
  On days without equal prices the pairing does not depend on which sort \<open>np.argsort\<close>
  runs.
\<close>

lemma build_daily_pairs_tie_free:
  assumes "argsort_ok a" "argsort_ok b"
    and "\<forall>d\<in>set dk. distinct (map (\<lambda>i. p_imp ! i) (day_idx dk d))
                   \<and> distinct (map (\<lambda>i. p_exp ! i) (day_idx dk d))"
  shows "build_daily_pairs a dk p_imp p_exp k = build_daily_pairs b dk p_imp p_exp k"
  unfolding build_daily_pairs_def
proof (rule fold_cong[OF refl refl])
  fix d assume "d \<in> set (sort (remdups dk))"
  then have d: "d \<in> set dk" by simp
  have l: "cand_low a p_imp k (day_idx dk d) = cand_low b p_imp k (day_idx dk d)"
    using assms(3) d by (intro cand_low_tie_free[OF assms(1,2)]) blast
  have h: "cand_high a p_exp k (day_idx dk d) = cand_high b p_exp k (day_idx dk d)"
    using assms(3) d by (intro cand_high_tie_free[OF assms(1,2)]) blast
  show "pair_day a dk p_imp p_exp k d = pair_day b dk p_imp p_exp k d"
    by (intro ext) (simp add: pair_day_def l h)
qed

text \<open>
  With a sort that keeps equal prices in index order (\<open>kind='stable'\<close>), the pairing is the
  rule the source's comments describe. For every calendar day \<open>d\<close>: the low candidates are
  the \<open>cycles_per_day\<close> hours of the day with the lowest import price (all hours when the day
  has fewer), a tie going to the earlier hour, and the high candidates the \<open>cycles_per_day\<close>
  hours with the highest export price, a tie going to the earlier hour. The low candidates
  are processed in ascending time order, and each is paired with the dearest high candidate
  that is strictly later and not yet paired with an earlier low candidate; a low candidate
  for which no such high candidate exists stays unpaired. Every pair of the day joins a low
  candidate with a high candidate, the two dictionaries hold the same pairs, and no key lies
  outside the series. \<open>cycles_per_day\<close> is not negative and the price vectors have the length
  of \<open>date_key\<close>.
\<close>

theorem build_daily_pairs_stable_greedy_extrema:
  assumes "0 \<le> k" and "length p_imp = length dk" and "length p_exp = length dk"
  shows "selects_first (cheaper p_imp) k (day_idx dk d) (set (cand_low argsort_stable p_imp k (day_idx dk d))) \<and>
    selects_first (dearer p_exp) k (day_idx dk d) (set (cand_high argsort_stable p_exp k (day_idx dk d))) \<and>
    sorted_wrt (<) (cand_low argsort_stable p_imp k (day_idx dk d)) \<and>
    greedy_pairing p_exp (set (cand_low argsort_stable p_imp k (day_idx dk d)))
      (set (cand_high argsort_stable p_exp k (day_idx dk d))) (fst (build_daily_pairs argsort_stable dk p_imp p_exp k)) \<and>
    (\<forall>l\<in>set (day_idx dk d). \<forall>h. fst (build_daily_pairs argsort_stable dk p_imp p_exp k) l = Some h \<longrightarrow>
       l \<in> set (cand_low argsort_stable p_imp k (day_idx dk d)) \<and> h \<in> set (cand_high argsort_stable p_exp k (day_idx dk d))
       \<and> l < h) \<and>
    (\<forall>l h. snd (build_daily_pairs argsort_stable dk p_imp p_exp k) h = Some l
       \<longleftrightarrow> fst (build_daily_pairs argsort_stable dk p_imp p_exp k) l = Some h) \<and>
    dom (fst (build_daily_pairs argsort_stable dk p_imp p_exp k)) \<subseteq> {..<length dk}"
proof -
  note k = assms(1)
  have c5: "\<forall>l\<in>set (day_idx dk d). \<forall>h. fst (build_daily_pairs argsort_stable dk p_imp p_exp k) l = Some h \<longrightarrow>
       l \<in> set (cand_low argsort_stable p_imp k (day_idx dk d)) \<and> h \<in> set (cand_high argsort_stable p_exp k (day_idx dk d))
       \<and> l < h"
  proof (intro ballI allI impI)
    fix l h assume l: "l \<in> set (day_idx dk d)"
      and e: "fst (build_daily_pairs argsort_stable dk p_imp p_exp k) l = Some h"
    from l have "dk ! l = d" by (simp add: in_day_idx)
    with e have "(l, h) \<in> set (day_pairs argsort_stable dk p_imp p_exp k d)" by (simp add: build_kl_iff[OF k])
    from day_pairs_mem(1,2,3)[OF k this]
    show "l \<in> set (cand_low argsort_stable p_imp k (day_idx dk d)) \<and> h \<in> set (cand_high argsort_stable p_exp k (day_idx dk d))
       \<and> l < h" by simp
  qed
  have c6: "\<forall>l h. snd (build_daily_pairs argsort_stable dk p_imp p_exp k) h = Some l
       \<longleftrightarrow> fst (build_daily_pairs argsort_stable dk p_imp p_exp k) l = Some h"
  proof (intro allI iffI)
    fix l h assume "snd (build_daily_pairs argsort_stable dk p_imp p_exp k) h = Some l"
    then have m: "(l, h) \<in> set (day_pairs argsort_stable dk p_imp p_exp k (dk ! h))"
      by (simp add: build_kh_iff[OF k])
    from day_pairs_mem(4,5)[OF k m] m
    show "fst (build_daily_pairs argsort_stable dk p_imp p_exp k) l = Some h" by (simp add: build_kl_iff[OF k])
  next
    fix l h assume "fst (build_daily_pairs argsort_stable dk p_imp p_exp k) l = Some h"
    then have m: "(l, h) \<in> set (day_pairs argsort_stable dk p_imp p_exp k (dk ! l))"
      by (simp add: build_kl_iff[OF k])
    from day_pairs_mem(6,7)[OF k m] m
    show "snd (build_daily_pairs argsort_stable dk p_imp p_exp k) h = Some l" by (simp add: build_kh_iff[OF k])
  qed
  have c7: "dom (fst (build_daily_pairs argsort_stable dk p_imp p_exp k)) \<subseteq> {..<length dk}"
    by (auto simp: build_kl_iff[OF k])
  from cand_low_selects[OF k, of p_imp dk d] cand_high_selects[OF k, of p_exp dk d]
    cand_low_sorted[OF k, of p_imp dk d] build_greedy[OF k, of p_exp p_imp dk d] c5 c6 c7
  show ?thesis by blast
qed


text \<open>
  With equal prices in descending index order the low candidates are not the first hours
  in the order \<open>cheaper\<close>.
\<close>

lemma cand_low_ties_desc_not_first:
  "\<not> selects_first (cheaper [Finite 3, Finite 2, Finite 1, Finite 1]) 1 [0, 1, 2, 3]
       (set (cand_low argsort_ties_desc [Finite 3, Finite 2, Finite 1, Finite 1] 1 [0, 1, 2, 3]))"
  by code_simp

text \<open>
  Claim C3. The pairing is to select, for every day, up to \<open>cycles_per_day\<close> hours with the
  lowest import price and as many with the highest export price, a tie going to the earlier
  hour, as the comments of \<open>_build_daily_pairs\<close> say of the two \<open>np.argsort\<close> lines (on a
  tie, ascending in time). The calls leave \<open>kind\<close> at its default, an unstable sort, whose
  order of equal values is not fixed. One day of four hours with import prices
  \<open>[3, 2, 1, 1]\<close>, export prices \<open>[0, 0, 0, 5]\<close> and one cycle per day: the order
  \<open>[3, 2, 1, 0]\<close> sorts the import prices, so it is a result \<open>np.argsort\<close> may give, and with it
  the low candidate is hour 3 although hour 2 has the same price and is earlier. The only
  high candidate is hour 3, so the run has no pair at all, where the rule of the claim
  pairs hour 2 with hour 3.
\<close>

theorem build_daily_pairs_tie_not_earliest:
  "is_argsort [Finite 3, Finite 2, Finite 1, Finite 1] [3, 2, 1, 0] \<and>
   argsort_ties_desc [Finite 3, Finite 2, Finite 1, Finite 1] = [3, 2, 1, 0] \<and>
   day_idx [1, 1, 1, 1 :: nat] 1 = [0, 1, 2, 3] \<and>
   cand_low argsort_ties_desc [Finite 3, Finite 2, Finite 1, Finite 1] 1 [0, 1, 2, 3] = [3] \<and>
   cand_high argsort_ties_desc [Finite 0, Finite 0, Finite 0, Finite 5] 1 [0, 1, 2, 3] = [3] \<and>
   cheaper [Finite 3, Finite 2, Finite 1, Finite 1] 2 3 \<and>
   2 \<notin> set (cand_low argsort_ties_desc [Finite 3, Finite 2, Finite 1, Finite 1] 1 [0, 1, 2, 3]) \<and>
   fst (build_daily_pairs argsort_ties_desc [1, 1, 1, 1 :: nat]
          [Finite 3, Finite 2, Finite 1, Finite 1] [Finite 0, Finite 0, Finite 0, Finite 5] 1) 2 = None \<and>
   fst (build_daily_pairs argsort_ties_desc [1, 1, 1, 1 :: nat]
          [Finite 3, Finite 2, Finite 1, Finite 1] [Finite 0, Finite 0, Finite 0, Finite 5] 1) 3 = None \<and>
   fst (build_daily_pairs argsort_stable [1, 1, 1, 1 :: nat]
          [Finite 3, Finite 2, Finite 1, Finite 1] [Finite 0, Finite 0, Finite 0, Finite 5] 1) 2 = Some 3"
  by code_simp

subsection \<open>The hourly loop\<close>

lemma soc_day_boundary: "soc_curr (day_boundary P day st) = soc_curr st"
  "cycles_used (day_boundary P day st) = cycles_used st"
  by (simp_all add: day_boundary_def)

lemma charge_signal_flags:
  "fst (snd (charge_signal P h dk thr_l headroom st)) =
     (flt_ge0 (flt_sub dk (Finite thr_l)) \<and> headroom > EPS \<and> cycles_used st (date_key h) < cycles_per_day P)"
  "fst (snd (snd (charge_signal P h dk thr_l headroom st))) =
     (flt_ge0 (flt_sub dk (Finite thr_l)) \<and> headroom > EPS \<and> cycles_used st (date_key h) < cycles_per_day P \<and>
      min (cap_eff_ch_ac P h * max (p_eta_ch P) EPS) headroom > EPS)"
  by (auto simp: charge_signal_def Let_def)

lemma discharge_signal_flags:
  "fst (snd (snd (discharge_signal P h dk thr_h st))) = fst (snd (discharge_signal P h dk thr_h st))"
  by (simp add: discharge_signal_def Let_def)

lemma prop_step_row:
  "thr_low (fst (prop_step P kl kh hs i st0)) = thr_l_of P (hs ! i) (soc_curr st0)"
  "delta_k (fst (prop_step P kl kh hs i st0)) =
           (if kl i \<noteq> None then flt_sub (price_export (hs ! the (kl i))) (price_import (hs ! i))
            else if kh i \<noteq> None then flt_sub (price_export (hs ! i)) (price_import (hs ! the (kh i)))
            else NaN)"
  "dec_ch_base (fst (prop_step P kl kh hs i st0)) =
           (kl i \<noteq> None \<and> fst (snd (charge_signal P (hs ! i)
              (flt_sub (price_export (hs ! the (kl i))) (price_import (hs ! i)))
              (thr_l_of P (hs ! i) (soc_curr st0)) (max 0 (p_emax_arbi P - soc_curr st0))
              (day_boundary P (date_key (hs ! i)) st0))))"
  "dec_ch (fst (prop_step P kl kh hs i st0)) =
           (kl i \<noteq> None \<and> fst (snd (snd (charge_signal P (hs ! i)
              (flt_sub (price_export (hs ! the (kl i))) (price_import (hs ! i)))
              (thr_l_of P (hs ! i) (soc_curr st0)) (max 0 (p_emax_arbi P - soc_curr st0))
              (day_boundary P (date_key (hs ! i)) st0)))))"
  by (simp_all add: prop_step_def Let_def soc_day_boundary)


lemma prop_loop_append:
  "prop_loop P kl kh hs (xs @ ys) st =
     (fst (prop_loop P kl kh hs xs st) @ fst (prop_loop P kl kh hs ys (snd (prop_loop P kl kh hs xs st))),
      snd (prop_loop P kl kh hs ys (snd (prop_loop P kl kh hs xs st))))"
  by (induction xs arbitrary: st) (simp_all add: Let_def)

lemma length_prop_loop: "length (fst (prop_loop P kl kh hs xs st)) = length xs"
  by (induction xs arbitrary: st) (simp_all add: Let_def)

lemma nth_prop_loop_upt:
  assumes "i < n"
  shows "fst (prop_loop P kl kh hs [0..<n] st) ! i =
         fst (prop_step P kl kh hs i (snd (prop_loop P kl kh hs [0..<i] st)))"
proof -
  have s: "[0..<n] = [0..<i] @ i # [Suc i..<n]"
    using assms by (metis le_add1 less_imp_add_positive upt_add_eq_append upt_conv_Cons zero_le add_0)
  show ?thesis
    unfolding s prop_loop_append
    by (simp add: nth_append length_prop_loop Let_def)
qed

lemma nth_prop_run:
  assumes "i < length hs"
  shows "prop_run asort P hs ! i =
     fst (prop_step P (fst (prop_pairs asort P hs)) (snd (prop_pairs asort P hs)) hs i
       (snd (prop_loop P (fst (prop_pairs asort P hs)) (snd (prop_pairs asort P hs)) hs [0..<i] (prop_init P))))"
  unfolding prop_run_def by (rule nth_prop_loop_upt[OF assms])

lemma thr_low_s5:
  assumes "soc = (5 / 100) * p_emax_arbi P" "0 \<le> p_emax_arbi P" "soc_low_threshold_pct P = 10"
    "soc_bonus_ch P = 30" "base_min_profit P = 50" "bonus_ch_mask h \<longrightarrow> hour_bonus_ch P = 0"
  shows "thr_l_of P h soc = 80"
proof -
  have "soc \<le> p_emax_arbi P * (soc_low_threshold_pct P / 100)"
    using assms(1,2,3) by simp
  then show ?thesis using assms(4,5,6) by (auto simp: thr_l_of_def)
qed

text \<open>
  Claim C5. For every hour \<open>i\<close>, the charge threshold the proposer emits is
  \<open>base_min_profit\<close>, plus \<open>hour_bonus_ch\<close> exactly when the hour is in the charge bonus
  mask, plus \<open>soc_bonus_ch\<close> exactly when the simulated ARBI SOC at the top of the hour is
  at most \<open>emax_arbi * p_low / 100\<close>. In scenario S5 (SOC = 0.05 \<open>emax_arbi\<close>, \<open>p_low\<close> = 10
  percent, \<open>soc_bonus_ch\<close> = 30, \<open>base_min_profit\<close> = 50, no hour bonus) the threshold is 80;
  a spread of 70 sets neither \<open>dec_ch_base\<close> nor \<open>dec_ch\<close>; a spread of 85 in a low hour
  with headroom above \<open>EPS\<close> and a cycle left sets \<open>dec_ch_base\<close>, and sets \<open>dec_ch\<close> when
  the AC cap lets more than \<open>EPS\<close> through.
\<close>

theorem proposer_charge_threshold:
  assumes "i < length hs"
  shows "thr_low (prop_run asort P hs ! i) =
           base_min_profit P + (if bonus_ch_mask (hs ! i) then hour_bonus_ch P else 0)
             + (if soc_curr (prop_state_before asort P hs i)
                     \<le> p_emax_arbi P * (soc_low_threshold_pct P / 100)
                then soc_bonus_ch P else 0) \<and>
         (soc_curr (prop_state_before asort P hs i) = (5 / 100) * p_emax_arbi P \<and>
          0 \<le> p_emax_arbi P \<and> soc_low_threshold_pct P = 10 \<and> soc_bonus_ch P = 30 \<and>
          base_min_profit P = 50 \<and> (bonus_ch_mask (hs ! i) \<longrightarrow> hour_bonus_ch P = 0) \<longrightarrow>
            thr_low (prop_run asort P hs ! i) = 80 \<and>
            (delta_k (prop_run asort P hs ! i) = Finite 70 \<longrightarrow>
               \<not> dec_ch_base (prop_run asort P hs ! i) \<and> \<not> dec_ch (prop_run asort P hs ! i)) \<and>
            (delta_k (prop_run asort P hs ! i) = Finite 85 \<and> fst (prop_pairs asort P hs) i \<noteq> None \<and>
             EPS < p_emax_arbi P - soc_curr (prop_state_before asort P hs i) \<and>
             cycles_used (prop_state_before asort P hs i) (date_key (hs ! i)) < cycles_per_day P \<longrightarrow>
               dec_ch_base (prop_run asort P hs ! i) \<and>
               (dec_ch (prop_run asort P hs ! i) \<longleftrightarrow>
                  EPS < cap_eff_ch_ac P (hs ! i) * max (p_eta_ch P) EPS)))"
proof -
  define kl where "kl = fst (prop_pairs asort P hs)"
  define kh where "kh = snd (prop_pairs asort P hs)"
  define st0 where "st0 = snd (prop_loop P kl kh hs [0..<i] (prop_init P))"
  define st where "st = prop_state_before asort P hs i"
  define row where "row = prop_run asort P hs ! i"
  have st: "st = day_boundary P (date_key (hs ! i)) st0"
    by (simp add: st_def prop_state_before_def st0_def kl_def kh_def)
  have soc: "soc_curr st0 = soc_curr st" by (simp add: st soc_day_boundary)
  have row: "row = fst (prop_step P kl kh hs i st0)"
    unfolding row_def nth_prop_run[OF assms] kl_def kh_def st0_def ..
  note f = prop_step_row[of P kl kh hs i st0, folded row st, unfolded soc]
  have a: "thr_low row =
           base_min_profit P + (if bonus_ch_mask (hs ! i) then hour_bonus_ch P else 0)
             + (if soc_curr st \<le> p_emax_arbi P * (soc_low_threshold_pct P / 100)
                then soc_bonus_ch P else 0)"
    unfolding f(1) by (simp add: thr_l_of_def)
  have b: "soc_curr st = (5 / 100) * p_emax_arbi P \<and>
          0 \<le> p_emax_arbi P \<and> soc_low_threshold_pct P = 10 \<and> soc_bonus_ch P = 30 \<and>
          base_min_profit P = 50 \<and> (bonus_ch_mask (hs ! i) \<longrightarrow> hour_bonus_ch P = 0) \<longrightarrow>
            thr_low row = 80 \<and>
            (delta_k row = Finite 70 \<longrightarrow> \<not> dec_ch_base row \<and> \<not> dec_ch row) \<and>
            (delta_k row = Finite 85 \<and> kl i \<noteq> None \<and>
             EPS < p_emax_arbi P - soc_curr st \<and>
             cycles_used st (date_key (hs ! i)) < cycles_per_day P \<longrightarrow>
               dec_ch_base row \<and>
               (dec_ch row \<longleftrightarrow> EPS < cap_eff_ch_ac P (hs ! i) * max (p_eta_ch P) EPS))"
  proof
    assume h: "soc_curr st = (5 / 100) * p_emax_arbi P \<and>
          0 \<le> p_emax_arbi P \<and> soc_low_threshold_pct P = 10 \<and> soc_bonus_ch P = 30 \<and>
          base_min_profit P = 50 \<and> (bonus_ch_mask (hs ! i) \<longrightarrow> hour_bonus_ch P = 0)"
    then have t: "thr_l_of P (hs ! i) (soc_curr st) = 80"
      by (intro thr_low_s5) auto
    have t80: "thr_low row = 80" unfolding f(1) by (rule t)
    have c70: "delta_k row = Finite 70 \<longrightarrow> \<not> dec_ch_base row \<and> \<not> dec_ch row"
      unfolding f(2) f(3) f(4) charge_signal_flags t by (auto split: if_splits)
    have c85: "delta_k row = Finite 85 \<and> kl i \<noteq> None \<and>
             EPS < p_emax_arbi P - soc_curr st \<and>
             cycles_used st (date_key (hs ! i)) < cycles_per_day P \<longrightarrow>
               dec_ch_base row \<and>
               (dec_ch row \<longleftrightarrow> EPS < cap_eff_ch_ac P (hs ! i) * max (p_eta_ch P) EPS)"
      unfolding f(2) f(3) f(4) charge_signal_flags t by (auto split: if_splits)
    from t80 c70 c85 show "thr_low row = 80 \<and>
            (delta_k row = Finite 70 \<longrightarrow> \<not> dec_ch_base row \<and> \<not> dec_ch row) \<and>
            (delta_k row = Finite 85 \<and> kl i \<noteq> None \<and>
             EPS < p_emax_arbi P - soc_curr st \<and>
             cycles_used st (date_key (hs ! i)) < cycles_per_day P \<longrightarrow>
               dec_ch_base row \<and>
               (dec_ch row \<longleftrightarrow> EPS < cap_eff_ch_ac P (hs ! i) * max (p_eta_ch P) EPS))"
      by blast
  qed
  from a b show ?thesis unfolding row_def st_def kl_def by blast
qed

theorem proposer_charge_threshold_witness:
  "0 < length [ex_prop_hour 10 0, ex_prop_hour 10 95] \<and>
   soc_curr (prop_state_before argsort_stable (ex_prop_params 1 (1 / 20)) [ex_prop_hour 10 0, ex_prop_hour 10 95] 0)
     = (5 / 100) * p_emax_arbi (ex_prop_params 1 (1 / 20)) \<and>
   thr_low (prop_run argsort_stable (ex_prop_params 1 (1 / 20)) [ex_prop_hour 10 0, ex_prop_hour 10 95] ! 0) = 80 \<and>
   delta_k (prop_run argsort_stable (ex_prop_params 1 (1 / 20)) [ex_prop_hour 10 0, ex_prop_hour 10 95] ! 0) = Finite 85 \<and>
   dec_ch (prop_run argsort_stable (ex_prop_params 1 (1 / 20)) [ex_prop_hour 10 0, ex_prop_hour 10 95] ! 0) \<and>
   delta_k (prop_run argsort_stable (ex_prop_params 1 (1 / 20)) [ex_prop_hour 10 0, ex_prop_hour 10 80] ! 0) = Finite 70 \<and>
   \<not> dec_ch (prop_run argsort_stable (ex_prop_params 1 (1 / 20)) [ex_prop_hour 10 0, ex_prop_hour 10 80] ! 0)"
proof -
  have l: "0 < length [ex_prop_hour 10 0, ex_prop_hour 10 95]"
    "0 < length [ex_prop_hour 10 0, ex_prop_hour 10 80]" by simp_all
  have s: "soc_curr (prop_state_before argsort_stable (ex_prop_params 1 (1 / 20)) [ex_prop_hour 10 0, ex_prop_hour 10 95] 0)
     = (5 / 100) * p_emax_arbi (ex_prop_params 1 (1 / 20))"
    "soc_curr (prop_state_before argsort_stable (ex_prop_params 1 (1 / 20)) [ex_prop_hour 10 0, ex_prop_hour 10 80] 0)
     = (5 / 100) * p_emax_arbi (ex_prop_params 1 (1 / 20))"
    by code_simp+
  have p: "0 \<le> p_emax_arbi (ex_prop_params 1 (1 / 20))"
    "soc_low_threshold_pct (ex_prop_params 1 (1 / 20)) = 10"
    "soc_bonus_ch (ex_prop_params 1 (1 / 20)) = 30"
    "base_min_profit (ex_prop_params 1 (1 / 20)) = 50"
    "hour_bonus_ch (ex_prop_params 1 (1 / 20)) = 0"
    by (simp_all add: ex_prop_params_def)
  have d: "delta_k (prop_run argsort_stable (ex_prop_params 1 (1 / 20)) [ex_prop_hour 10 0, ex_prop_hour 10 95] ! 0) = Finite 85"
    "dec_ch (prop_run argsort_stable (ex_prop_params 1 (1 / 20)) [ex_prop_hour 10 0, ex_prop_hour 10 95] ! 0)"
    "delta_k (prop_run argsort_stable (ex_prop_params 1 (1 / 20)) [ex_prop_hour 10 0, ex_prop_hour 10 80] ! 0) = Finite 70"
    by code_simp+
  from proposer_charge_threshold[OF l(1), of argsort_stable "ex_prop_params 1 (1 / 20)"] s(1) p
  have t80: "thr_low (prop_run argsort_stable (ex_prop_params 1 (1 / 20)) [ex_prop_hour 10 0, ex_prop_hour 10 95] ! 0) = 80"
    by blast
  from proposer_charge_threshold[OF l(2), of argsort_stable "ex_prop_params 1 (1 / 20)"] s(2) p d(3)
  have n70: "\<not> dec_ch (prop_run argsort_stable (ex_prop_params 1 (1 / 20)) [ex_prop_hour 10 0, ex_prop_hour 10 80] ! 0)"
    by blast
  from l(1) s(1) t80 d n70 show ?thesis by blast
qed

lemma prop_run_tie_free:
  assumes "argsort_ok a" "argsort_ok b"
    and "\<forall>d\<in>set (map date_key hs).
           distinct (map (\<lambda>i. map price_import hs ! i) (day_idx (map date_key hs) d))
           \<and> distinct (map (\<lambda>i. map price_export hs ! i) (day_idx (map date_key hs) d))"
  shows "prop_run a P hs = prop_run b P hs"
  unfolding prop_run_def prop_pairs_def build_daily_pairs_tie_free[OF assms] ..

text \<open>
  Claim C9 says that \<open>dec_ch\<close> and \<open>dec_dis\<close> never hold in the same hour, which
  \<open>_check_02_proposer\<close> of \<open>06_validate.py\<close> requires (\<open>both_flags\<close> must be 0). In
  \<open>run\<close>, an hour that is the low hour of one pair and the high hour of another passes
  through both the charge branch and the discharge branch. One day of three hours with
  import prices \<open>[10, 11, 12]\<close>, export prices \<open>[0, 100, 95]\<close> and two cycles per day has no
  equal prices: whichever sort \<open>np.argsort\<close> runs, the pairs are \<open>0 \<rightarrow> 1\<close> and \<open>1 \<rightarrow> 2\<close>, and
  hour 1 charges 0.4 MWh and discharges 0.4 MWh. With the sort that keeps ties in index
  order, the same happens for import prices \<open>[10, 10, 10]\<close>, and for import and export
  prices both \<open>[0, 5, 5, 5]\<close> with three cycles per day, no minimum profit and no bonus.
\<close>

theorem proposer_sets_both_flags:
  assumes "argsort_ok asort"
  shows "dec_ch (prop_run asort (ex_prop_params 2 0)
             [ex_prop_hour 10 0, ex_prop_hour 11 100, ex_prop_hour 12 95] ! 1) \<and>
   dec_dis (prop_run asort (ex_prop_params 2 0)
             [ex_prop_hour 10 0, ex_prop_hour 11 100, ex_prop_hour 12 95] ! 1) \<and>
   dec_ch (prop_run argsort_stable (ex_prop_params 2 0)
             [ex_prop_hour 10 0, ex_prop_hour 10 100, ex_prop_hour 10 95] ! 1) \<and>
   dec_dis (prop_run argsort_stable (ex_prop_params 2 0)
             [ex_prop_hour 10 0, ex_prop_hour 10 100, ex_prop_hour 10 95] ! 1) \<and>
   dec_ch (prop_run argsort_stable ((ex_prop_params 3 0)\<lparr>base_min_profit := 0, soc_bonus_ch := 0\<rparr>)
             [ex_prop_hour 0 0, ex_prop_hour 5 5, ex_prop_hour 5 5, ex_prop_hour 5 5] ! 1) \<and>
   dec_dis (prop_run argsort_stable ((ex_prop_params 3 0)\<lparr>base_min_profit := 0, soc_bonus_ch := 0\<rparr>)
             [ex_prop_hour 0 0, ex_prop_hour 5 5, ex_prop_hour 5 5, ex_prop_hour 5 5] ! 1)"
proof -
  have t: "\<forall>d\<in>set (map date_key [ex_prop_hour 10 0, ex_prop_hour 11 100, ex_prop_hour 12 95]).
           distinct (map (\<lambda>i. map price_import [ex_prop_hour 10 0, ex_prop_hour 11 100, ex_prop_hour 12 95] ! i)
                       (day_idx (map date_key [ex_prop_hour 10 0, ex_prop_hour 11 100, ex_prop_hour 12 95]) d))
           \<and> distinct (map (\<lambda>i. map price_export [ex_prop_hour 10 0, ex_prop_hour 11 100, ex_prop_hour 12 95] ! i)
                       (day_idx (map date_key [ex_prop_hour 10 0, ex_prop_hour 11 100, ex_prop_hour 12 95]) d))"
    by code_simp
  have e: "prop_run asort (ex_prop_params 2 0)
             [ex_prop_hour 10 0, ex_prop_hour 11 100, ex_prop_hour 12 95]
         = prop_run argsort_stable (ex_prop_params 2 0)
             [ex_prop_hour 10 0, ex_prop_hour 11 100, ex_prop_hour 12 95]"
    by (rule prop_run_tie_free[OF assms argsort_stable_ok t])
  have s: "dec_ch (prop_run argsort_stable (ex_prop_params 2 0)
             [ex_prop_hour 10 0, ex_prop_hour 11 100, ex_prop_hour 12 95] ! 1)"
    "dec_dis (prop_run argsort_stable (ex_prop_params 2 0)
             [ex_prop_hour 10 0, ex_prop_hour 11 100, ex_prop_hour 12 95] ! 1)"
    by code_simp+
  have o: "dec_ch (prop_run argsort_stable (ex_prop_params 2 0)
             [ex_prop_hour 10 0, ex_prop_hour 10 100, ex_prop_hour 10 95] ! 1)"
    "dec_dis (prop_run argsort_stable (ex_prop_params 2 0)
             [ex_prop_hour 10 0, ex_prop_hour 10 100, ex_prop_hour 10 95] ! 1)"
    "dec_ch (prop_run argsort_stable ((ex_prop_params 3 0)\<lparr>base_min_profit := 0, soc_bonus_ch := 0\<rparr>)
             [ex_prop_hour 0 0, ex_prop_hour 5 5, ex_prop_hour 5 5, ex_prop_hour 5 5] ! 1)"
    "dec_dis (prop_run argsort_stable ((ex_prop_params 3 0)\<lparr>base_min_profit := 0, soc_bonus_ch := 0\<rparr>)
             [ex_prop_hour 0 0, ex_prop_hour 5 5, ex_prop_hour 5 5, ex_prop_hour 5 5] ! 1)"
    by code_simp+
  from s o show ?thesis unfolding e by simp
qed

theorem proposer_sets_both_flags_witness:
  "argsort_ok argsort_ties_desc \<and>
   dec_ch (prop_run argsort_ties_desc (ex_prop_params 2 0)
             [ex_prop_hour 10 0, ex_prop_hour 11 100, ex_prop_hour 12 95] ! 1) \<and>
   dec_dis (prop_run argsort_ties_desc (ex_prop_params 2 0)
             [ex_prop_hour 10 0, ex_prop_hour 11 100, ex_prop_hour 12 95] ! 1)"
  using proposer_sets_both_flags[OF argsort_ties_desc_ok] argsort_ties_desc_ok by simp


end
